theory Spec2Isabelle
  imports Complex_Main
begin

section \<open>Common ground: Python errors and values\<close>

text \<open>
  The analysis code is Python.  An exception that leaves a function is the left
  injection of the function's result; the constructors are the exception classes
  the modelled code can raise.
\<close>

datatype error = ValueError | IndexError | TypeError | ZeroDivisionError | UnboundLocalError

text \<open>
  A nested Python list of integers, as \<open>sign_rois\<close> is: \<open>quintile (x tail)\<close>.
\<close>

datatype pyval = is_PInt: PInt (un_PInt: int) | PList "pyval list"

text \<open>\<open>x[i]\<close> for a non-negative literal index \<open>i\<close>.\<close>

fun py_get :: "pyval \<Rightarrow> nat \<Rightarrow> error + pyval" where
  "py_get (PInt n) i = Inl TypeError"
| "py_get (PList xs) i = (if i < length xs then Inr (xs ! i) else Inl IndexError)"

text \<open>
  \<open>set(x)\<close>: \<open>x\<close> must be iterable and its elements hashable; a list is not
  hashable.  The set is kept as a duplicate-free list.  Python does not fix the
  order in which \<open>list(set(...))\<close> enumerates a set; the order chosen here is that
  of the first occurrences, and nothing below depends on it.
\<close>

fun py_set :: "pyval \<Rightarrow> error + int list" where
  "py_set (PInt n) = Inl TypeError"
| "py_set (PList xs) =
     (if list_all is_PInt xs then Inr (remdups (map un_PInt xs)) else Inl TypeError)"

text \<open>\<open>set(a) & set(b)\<close> and \<open>set(a) - set(b)\<close> on duplicate-free lists.\<close>

definition set_inter :: "int list \<Rightarrow> int list \<Rightarrow> int list" where
  "set_inter a b = filter (\<lambda>x. x \<in> set b) a"

definition set_diff :: "int list \<Rightarrow> int list \<Rightarrow> int list" where
  "set_diff a b = filter (\<lambda>x. x \<notin> set b) a"

text \<open>Sequencing of calls that may raise.\<close>

definition ebind :: "error + 'a \<Rightarrow> ('a \<Rightarrow> error + 'b) \<Rightarrow> error + 'b" where
  "ebind m f = (case m of Inl e \<Rightarrow> Inl e | Inr x \<Rightarrow> f x)"

fun emap :: "('a \<Rightarrow> error + 'b) \<Rightarrow> 'a list \<Rightarrow> error + 'b list" where
  "emap f [] = Inr []"
| "emap f (x # xs) =
     (case f x of Inl e \<Rightarrow> Inl e
      | Inr y \<Rightarrow> (case emap f xs of Inl e \<Rightarrow> Inl e | Inr ys \<Rightarrow> Inr (y # ys)))"

section \<open>signif\_grps.py: grouping ROIs by significance\<close>

text \<open>
  The \<open>tails\<close> argument is \<open>'up'\<close>, \<open>'lo'\<close> or \<open>2\<close> (the code compares
  \<open>str(tails)\<close> with \<open>'2'\<close>, so the string \<open>'2'\<close> is accepted too).
\<close>

datatype tails = TailStr string | TailInt int

text \<open>The \<open>grps\<close> argument is one set name or a list of set names.\<close>

datatype grps_arg = GrpStr string | GrpList "string list"

text \<open>
  Modelled from the spec: \<open>gen_util.list_if_not\<close> is not among the sources.  A
  criterion is "a literal value" or "a list of allowed values"; a literal value
  is wrapped into a one-element list.
\<close>

fun list_if_not_grps :: "grps_arg \<Rightarrow> string list" where
  "list_if_not_grps (GrpStr g) = [g]"
| "list_if_not_grps (GrpList gs) = gs"

text \<open>
  \<open>sep_grps\<close> returns the groups of one set when \<open>grps\<close> has one entry, and a
  list of such results otherwise.
\<close>

datatype 'a one_or_sets = OneSet 'a | Sets "'a list"

text \<open>The nine ROI groups of the two-tailed branch and their names, in the code's order.\<close>

definition roi_grps_2 :: "int list \<Rightarrow> int list \<Rightarrow> int list \<Rightarrow> int list \<Rightarrow> int \<Rightarrow> int list list" where
  "roi_grps_2 s00 s01 s10 s11 nrois =
     [set_inter s01 s11, set_inter s01 s10, set_inter s00 s11, set_inter s00 s10,
      set_diff (set_diff s01 s11) s10, set_diff (set_diff s00 s11) s10,
      set_diff (set_diff s11 s01) s00, set_diff (set_diff s10 s01) s00,
      set_diff (set_diff (set_diff (set_diff [0..nrois - 1] s01) s11) s00) s10]"

definition grp_names_2 :: "string list" where
  "grp_names_2 = [''surpup_surpup'', ''surpup_surplo'', ''surplo_surpup'',
     ''surplo_surplo'', ''surpup_reg'', ''surplo_reg'', ''reg_surpup'', ''reg_surplo'',
     ''reg_reg'']"

text \<open>The four ROI groups of the one-tailed branch.\<close>

definition roi_grps_1 :: "int list \<Rightarrow> int list \<Rightarrow> int \<Rightarrow> int list list" where
  "roi_grps_1 s0 s1 nrois =
     (let surp_surp = set_inter s0 s1;
          surp_reg = set_diff s0 s1;
          reg_surp = set_diff s1 s0;
          reg_reg = set_diff (set_diff (set_diff [0..nrois - 1] surp_surp) surp_reg) reg_surp
      in [surp_surp, surp_reg, reg_surp, reg_reg])"

definition grp_names_1 :: "string list" where
  "grp_names_1 = [''surp_surp'', ''surp_reg'', ''reg_surp'', ''reg_reg'']"

text \<open>
  The indices of the groups a set name selects; \<open>n\<close> is the number of groups,
  the four lists are the code's literals for \<open>'change'\<close>, \<open>'no_change'\<close>,
  \<open>'reduc'\<close> and \<open>'incr'\<close>.  Any other name ends in
  \<open>gen_util.accepted_values_error\<close>, which raises \<open>ValueError\<close>.
\<close>

definition grp_ind_of ::
  "nat \<Rightarrow> nat list \<Rightarrow> nat list \<Rightarrow> nat list \<Rightarrow> nat list \<Rightarrow> nat \<Rightarrow> bool \<Rightarrow> string
   \<Rightarrow> error + nat list" where
  "grp_ind_of n change no_change reduc incr reg_ind add_reg g =
     (case (if g = ''all'' then Inr [0..<n]
            else if g = ''change'' then Inr change
            else if g = ''no_change'' then Inr no_change
            else if g = ''reduc'' then Inr reduc
            else if g = ''incr'' then Inr incr
            else Inl ValueError) of
        Inl e \<Rightarrow> Inl e
      | Inr grp_ind \<Rightarrow>
          Inr (sort (if add_reg \<and> reg_ind \<notin> set grp_ind then grp_ind @ [reg_ind]
                     else grp_ind)))"

text \<open>The last lines of \<open>sep_grps\<close>: select by index, unwrap a single set.\<close>

definition select_grps ::
  "string list \<Rightarrow> int list list \<Rightarrow> string list \<Rightarrow> nat list list
   \<Rightarrow> int list list one_or_sets \<times> string list one_or_sets" where
  "select_grps grps roi_grps grp_names grp_inds =
     (let all_roi_grps = map (map ((!) roi_grps)) grp_inds;
          all_grp_names = map (map ((!) grp_names)) grp_inds
      in if length grps = 1 then (OneSet (all_roi_grps ! 0), OneSet (all_grp_names ! 0))
         else (Sets all_roi_grps, Sets all_grp_names))"

definition sep_grps ::
  "pyval \<Rightarrow> int \<Rightarrow> grps_arg \<Rightarrow> tails \<Rightarrow> bool
   \<Rightarrow> error + (int list list one_or_sets \<times> string list one_or_sets)" where
  "sep_grps sign_rois nrois grps_in tls add_reg =
     (let grps = list_if_not_grps grps_in in
      if tls = TailStr ''up'' \<or> tls = TailStr ''lo'' then
        ebind (ebind (py_get sign_rois 0) py_set) (\<lambda>s0.
        ebind (ebind (py_get sign_rois 1) py_set) (\<lambda>s1.
        ebind (emap (grp_ind_of 4 [1, 2] [0, 3] [1] [2] 3 add_reg) grps) (\<lambda>grp_inds.
        Inr (select_grps grps (roi_grps_1 s0 s1 nrois) grp_names_1 grp_inds))))
      else if tls = TailStr ''2'' \<or> tls = TailInt 2 then
        ebind (ebind (ebind (py_get sign_rois 0) (\<lambda>q. py_get q 1)) py_set) (\<lambda>s01.
        ebind (ebind (ebind (py_get sign_rois 1) (\<lambda>q. py_get q 1)) py_set) (\<lambda>s11.
        ebind (ebind (ebind (py_get sign_rois 1) (\<lambda>q. py_get q 0)) py_set) (\<lambda>s10.
        ebind (ebind (ebind (py_get sign_rois 0) (\<lambda>q. py_get q 0)) py_set) (\<lambda>s00.
        ebind (emap (grp_ind_of 9 [1, 2, 4, 5, 6, 7] [0, 3, 8] [1, 4, 7] [2, 5, 6] 8 add_reg)
                 grps) (\<lambda>grp_inds.
        Inr (select_grps grps (roi_grps_2 s00 s01 s10 s11 nrois) grp_names_2 grp_inds))))))
      else Inl UnboundLocalError)"

text \<open>
  Modelled from the spec: the permutation test (\<open>math_util.id_elem\<close>) that
  produces \<open>sign_rois\<close> is not among the sources.  "Output: for each tested unit,
  a tail classification in \<open>{"up","lo","no"}\<close>"; the grouping is "given, for each
  ROI, a two-quintile pair of tail classifications".  A significance-label
  assignment gives every ROI index one label per quintile.  \<open>sign_rois_1\<close> and
  \<open>sign_rois_2\<close> are the nested lists \<open>sep_grps\<close> reads for such an assignment:
  per quintile the ROIs with a significant label (one tail), and per quintile
  and tail, lower tail first, the ROIs with that label (two tails).
\<close>

datatype sig_label = SigUp | SigLo | SigNo

definition rois_where :: "(sig_label \<Rightarrow> bool) \<Rightarrow> (int \<Rightarrow> sig_label) \<Rightarrow> int \<Rightarrow> pyval" where
  "rois_where P lab nrois = PList (map PInt (filter (\<lambda>i. P (lab i)) [0..nrois - 1]))"

definition sign_rois_1 :: "(int \<Rightarrow> sig_label) \<Rightarrow> (int \<Rightarrow> sig_label) \<Rightarrow> int \<Rightarrow> pyval" where
  "sign_rois_1 lab0 lab1 nrois =
     PList [rois_where (\<lambda>l. l = SigUp \<or> l = SigLo) lab0 nrois,
            rois_where (\<lambda>l. l = SigUp \<or> l = SigLo) lab1 nrois]"

definition sign_rois_2 :: "(int \<Rightarrow> sig_label) \<Rightarrow> (int \<Rightarrow> sig_label) \<Rightarrow> int \<Rightarrow> pyval" where
  "sign_rois_2 lab0 lab1 nrois =
     PList [PList [rois_where (\<lambda>l. l = SigLo) lab0 nrois, rois_where (\<lambda>l. l = SigUp) lab0 nrois],
            PList [rois_where (\<lambda>l. l = SigLo) lab1 nrois, rois_where (\<lambda>l. l = SigUp) lab1 nrois]]"

text \<open>
  Modelled from the spec: \<open>math_util.calc_mult_comp\<close> is not among the sources.
  "The effective p-value is \<open>p_value / n_comparisons\<close> and the number of
  permutations is scaled up [...] (\<open>n_perms_effective = max(n_perms,
  ceil(1/effective_p_value))\<close>)".  The floats are modelled as reals; a division by
  zero is Python's \<open>ZeroDivisionError\<close>.
\<close>

definition calc_mult_comp :: "real \<Rightarrow> real \<Rightarrow> int \<Rightarrow> error + (real \<times> int)" where
  "calc_mult_comp n_comps p_val n_perms =
     (if n_comps = 0 then Inl ZeroDivisionError
      else let new_p_val = p_val / n_comps in
        if new_p_val = 0 then Inl ZeroDivisionError
        else Inr (new_p_val, max n_perms \<lceil>1 / new_p_val\<rceil>))"

text \<open>
  \<open>signif_rois_by_grp_sess\<close>, for one session, up to the arguments its
  permutation test (\<open>math_util.permute_diff_ratio\<close>, \<open>math_util.id_elem\<close>)
  is run with: the corrected p-value and the number of permutations.  The test
  itself draws random permutations and is not modelled.
\<close>

definition signif_rois_perm_args ::
  "string list \<Rightarrow> int \<Rightarrow> real \<Rightarrow> int \<Rightarrow> error + (real \<times> int)" where
  "signif_rois_perm_args qu_labs nrois p_val n_perms =
     (if length qu_labs \<noteq> 2 then Inl ValueError
      else let n_comps = real_of_int nrois * real (length qu_labs)
           in calc_mult_comp n_comps p_val n_perms)"

section \<open>session.py: loading a session\<close>

text \<open>
  A numpy \<open>float64\<close>: a finite value, an infinity or \<open>NaN\<close>.  The finite values
  are the reals \<open>m * 2 ^ e\<close> with \<open>\<bar>m\<bar> < 2 ^ 53\<close> and \<open>- 1074 \<le> e\<close> below
  \<open>2 ^ 1024\<close>; the two zeros are not told apart.  An operation returns the exact
  result rounded to the nearest such value, ties to the even significand, and an
  infinity when the rounded result reaches \<open>2 ^ 1024\<close>.
\<close>

datatype f64 = Fin real | PInf | NInf | NaN

text \<open>The number of binary digits of a positive integer.\<close>

function bit_len :: "int \<Rightarrow> int" where
  "bit_len n = (if n \<le> 0 then 0 else 1 + bit_len (n div 2))"
  by pat_completeness auto
termination
  by (relation "measure nat") auto

declare bit_len.simps [simp del]

definition pow2 :: "int \<Rightarrow> real" where
  "pow2 e = (if 0 \<le> e then 2 ^ nat e else 1 / 2 ^ nat (- e))"

text \<open>The binary exponent of a positive real \<open>x\<close>: \<open>pow2 (ilog2 x) \<le> x < pow2 (ilog2 x + 1)\<close>.\<close>

definition ilog2 :: "real \<Rightarrow> int" where
  "ilog2 x = (if 1 \<le> x then bit_len \<lfloor>x\<rfloor> - 1 else - bit_len (\<lceil>1 / x\<rceil> - 1))"

definition round_even :: "real \<Rightarrow> int" where
  "round_even x =
     (let f = \<lfloor>x\<rfloor>; d = x - real_of_int f
      in if d < 1 / 2 then f else if 1 / 2 < d then f + 1 else if even f then f else f + 1)"

text \<open>
  Rounding to 53 significant bits; below \<open>2 ^ - 1022\<close> the spacing stays
  \<open>2 ^ - 1074\<close> (subnormal numbers).
\<close>

definition rnd64 :: "real \<Rightarrow> real" where
  "rnd64 x =
     (if x = 0 then 0
      else let u = pow2 (max (ilog2 \<bar>x\<bar>) (- 1022) - 52)
           in real_of_int (round_even (x / u)) * u)"

definition round_f64 :: "real \<Rightarrow> f64" where
  "round_f64 x =
     (let y = rnd64 x
      in if 2 ^ 1024 \<le> \<bar>y\<bar> then (if 0 < y then PInf else NInf) else Fin y)"

text \<open>
  Addition, subtraction and division by two.  An operation with a \<open>NaN\<close>
  operand gives \<open>NaN\<close>, and so does the difference of equal infinities.
\<close>

fun fl_add :: "f64 \<Rightarrow> f64 \<Rightarrow> f64" where
  "fl_add (Fin x) (Fin y) = round_f64 (x + y)"
| "fl_add NaN b = NaN"
| "fl_add a NaN = NaN"
| "fl_add PInf NInf = NaN"
| "fl_add NInf PInf = NaN"
| "fl_add PInf b = PInf"
| "fl_add NInf b = NInf"
| "fl_add a PInf = PInf"
| "fl_add a NInf = NInf"

fun fl_sub :: "f64 \<Rightarrow> f64 \<Rightarrow> f64" where
  "fl_sub (Fin x) (Fin y) = round_f64 (x - y)"
| "fl_sub NaN b = NaN"
| "fl_sub a NaN = NaN"
| "fl_sub PInf PInf = NaN"
| "fl_sub NInf NInf = NaN"
| "fl_sub PInf b = PInf"
| "fl_sub NInf b = NInf"
| "fl_sub a PInf = NInf"
| "fl_sub a NInf = PInf"

fun fl_half :: "f64 \<Rightarrow> f64" where
  "fl_half (Fin x) = round_f64 (x / 2)"
| "fl_half a = a"

fun fl_abs :: "f64 \<Rightarrow> f64" where
  "fl_abs (Fin x) = Fin \<bar>x\<bar>"
| "fl_abs NInf = PInf"
| "fl_abs a = a"

text \<open>
  The comparisons with a threshold (a finite number); a comparison with a \<open>NaN\<close>
  operand is false.
\<close>

fun fl_gt :: "f64 \<Rightarrow> real \<Rightarrow> bool" where
  "fl_gt (Fin x) t = (x > t)"
| "fl_gt PInf t = True"
| "fl_gt a t = False"

fun fl_lt :: "f64 \<Rightarrow> real \<Rightarrow> bool" where
  "fl_lt (Fin x) t = (x < t)"
| "fl_lt NInf t = True"
| "fl_lt a t = False"

text \<open>\<open>np.mean([a, b])\<close>: the sum of the two elements, divided by their number.\<close>

definition fl_mean2 :: "f64 \<Rightarrow> f64 \<Rightarrow> f64" where
  "fl_mean2 a b = fl_half (fl_add a b)"

text \<open>\<open>np.diff\<close> of a float array.\<close>

definition np_diff :: "f64 list \<Rightarrow> f64 list" where
  "np_diff xs = map (\<lambda>i. fl_sub (xs ! Suc i) (xs ! i)) [0..<length xs - 1]"

text \<open>What the loading methods print, in the order printed.\<close>

datatype warning =
    RunValuesReplaced nat
  | ConsecRunValuesDropped int
  | DroppedStimFrSeqs nat
  | Twop2stimfrNotWorking

subsection \<open>\<open>Session._load_run_speed\<close>\<close>

text \<open>
  \<open>out_idx = np.where((run_diff < -diff_thr) | (run_diff > diff_thr))[0]\<close>
\<close>

definition out_idx :: "real \<Rightarrow> f64 list \<Rightarrow> nat list" where
  "out_idx diff_thr rn =
     (let run_diff = np_diff rn
      in filter (\<lambda>i. fl_lt (run_diff ! i) (- diff_thr) \<or> fl_gt (run_diff ! i) diff_thr)
           [0..<length run_diff])"

text \<open>
  The inner \<open>while\<close> loop: \<open>run[idx + 1]\<close> is replaced by \<open>NaN\<close> as long as it
  is further than \<open>diff_thr\<close> from \<open>comp_val\<close>.  Reading \<open>run[idx + 1]\<close> past
  the end of the array raises \<open>IndexError\<close>.  The result is the array and the
  final value of \<open>idx\<close>.
\<close>

function nan_while :: "real \<Rightarrow> f64 \<Rightarrow> f64 list \<Rightarrow> nat \<Rightarrow> error + (f64 list \<times> nat)" where
  "nan_while diff_thr comp_val rn idx =
     (if Suc idx < length rn then
        (if fl_gt (fl_abs (fl_sub (rn ! Suc idx) comp_val)) diff_thr
         then nan_while diff_thr comp_val (rn[Suc idx := NaN]) (Suc idx)
         else Inr (rn, idx))
      else Inl IndexError)"
  by pat_completeness auto
termination
  by (relation "measure (\<lambda>(diff_thr, comp_val, rn, idx). length rn - idx)") auto

declare nan_while.simps [simp del]

text \<open>\<open>a[lo:hi] = v\<close> for a scalar \<open>v\<close> and \<open>0 \<le> lo\<close>, \<open>0 \<le> hi\<close>.\<close>

definition fill_slice :: "'a list \<Rightarrow> nat \<Rightarrow> nat \<Rightarrow> 'a \<Rightarrow> 'a list" where
  "fill_slice xs lo hi v = map (\<lambda>k. if lo \<le> k \<and> k < hi then v else xs ! k) [0..<length xs]"

text \<open>The attributes \<open>_load_run_speed\<close> works on, and what it has printed.\<close>

record run_state =
  run :: "f64 list"
  run_interp :: "f64 list"
  at_idx :: int
  run_log :: "warning list"

text \<open>One iteration of \<open>for idx in out_idx\<close>.\<close>

definition run_step :: "real \<Rightarrow> nat \<Rightarrow> run_state \<Rightarrow> error + run_state" where
  "run_step diff_thr idx st =
     (if int idx > at_idx st then
        (if idx < length (run st) then
           let first_off = (idx = 0 \<and> fl_gt (fl_abs (run st ! 0)) diff_thr);
               comp_val = (if idx = 0 then Fin 0 else run st ! idx);
               run1 = (if first_off then (run st)[0 := NaN] else run st);
               orig = (if first_off then - 1 else int idx)
           in (case nan_while diff_thr comp_val run1 idx of
                 Inl e \<Rightarrow> Inl e
               | Inr (run2, idx2) \<Rightarrow>
                   Inr \<lparr>run = run2,
                        run_interp = fill_slice (run_interp st) (nat (orig + 1)) (Suc idx2)
                                       (fl_mean2 comp_val (run2 ! Suc idx2)),
                        at_idx = int idx2,
                        run_log = run_log st @
                          (if int idx2 - orig > 5 then [ConsecRunValuesDropped (int idx2 - orig)]
                           else [])\<rparr>)
         else Inl IndexError)
      else Inr st)"

fun run_loop :: "real \<Rightarrow> nat list \<Rightarrow> run_state \<Rightarrow> error + run_state" where
  "run_loop diff_thr [] st = Inr st"
| "run_loop diff_thr (idx # idxs) st =
     (case run_step diff_thr idx st of Inl e \<Rightarrow> Inl e | Inr st' \<Rightarrow> run_loop diff_thr idxs st')"

text \<open>
  \<open>_load_run_speed(self, diff_thr)\<close>; \<open>rn\<close> is what
  \<open>sess_sync_util.get_run_speed\<close> returned.
\<close>

definition load_run_speed :: "real \<Rightarrow> f64 list \<Rightarrow> error + run_state" where
  "load_run_speed diff_thr rn =
     (let oi = out_idx diff_thr rn
      in run_loop diff_thr oi
           \<lparr>run = rn, run_interp = rn, at_idx = - 1,
            run_log = (if length oi > 0 then [RunValuesReplaced (length oi)] else [])\<rparr>)"

text \<open>The default of the parameter: \<open>def _load_run_speed(self, diff_thr=100)\<close>.\<close>

definition diff_thr_default :: real where
  "diff_thr_default = 100"

text \<open>
  The running-speed step of \<open>Session._load_stim_dict\<close>: it calls
  \<open>self._load_run_speed()\<close> with no argument.
\<close>

definition load_stim_dict_run_speed :: "f64 list \<Rightarrow> error + run_state" where
  "load_stim_dict_run_speed rn = load_run_speed diff_thr_default rn"

subsection \<open>\<open>Session._get_twop2stimfr\<close>\<close>

text \<open>\<open>np.diff\<close> of an integer array, and \<open>np.append(1, np.diff(self.stim2twopfr))\<close>.\<close>

definition np_diff_int :: "int list \<Rightarrow> int list" where
  "np_diff_int xs = map (\<lambda>i. xs ! Suc i - xs ! i) [0..<length xs - 1]"

definition stim2twopfr_diff :: "int list \<Rightarrow> int list" where
  "stim2twopfr_diff s2t = 1 # np_diff_int s2t"

text \<open>\<open>np.where(d)[0]\<close> and \<open>np.where(d > 1)[0]\<close>.\<close>

definition where_nonzero :: "int list \<Rightarrow> nat list" where
  "where_nonzero d = filter (\<lambda>i. d ! i \<noteq> 0) [0..<length d]"

definition where_gt1 :: "int list \<Rightarrow> nat list" where
  "where_gt1 d = filter (\<lambda>i. d ! i > 1) [0..<length d]"

text \<open>\<open>np.where(stim_idx == drop)[0][0]\<close>: the first position holding \<open>drop\<close>.\<close>

fun first_pos :: "nat list \<Rightarrow> nat \<Rightarrow> error + nat" where
  "first_pos [] v = Inl IndexError"
| "first_pos (x # xs) v =
     (if x = v then Inr 0
      else (case first_pos xs v of Inl e \<Rightarrow> Inl e | Inr k \<Rightarrow> Inr (Suc k)))"

text \<open>
  One iteration of the repair loop: \<open>stim_idx[loc-1]\<close> is repeated
  \<open>stim2twopfr_diff[drop] - 1\<close> times before position \<open>loc\<close>.  (\<open>loc - 1\<close> is
  \<open>-1\<close>, the last element, when \<open>loc\<close> is 0.)
\<close>

definition repair_drop :: "int list \<Rightarrow> nat \<Rightarrow> nat list \<Rightarrow> error + nat list" where
  "repair_drop d dr stim_idx =
     (case first_pos stim_idx dr of
        Inl e \<Rightarrow> Inl e
      | Inr loc \<Rightarrow>
          let prev = (if loc = 0 then last stim_idx else stim_idx ! (loc - 1));
              add = replicate (nat (d ! dr - 1)) prev
          in Inr (take loc stim_idx @ add @ drop loc stim_idx))"

fun repair_loop :: "int list \<Rightarrow> nat list \<Rightarrow> nat list \<Rightarrow> error + nat list" where
  "repair_loop d [] stim_idx = Inr stim_idx"
| "repair_loop d (dr # drs) stim_idx =
     (case repair_drop d dr stim_idx of Inl e \<Rightarrow> Inl e
      | Inr stim_idx' \<Rightarrow> repair_loop d drs stim_idx')"

text \<open>\<open>xs[-1:]\<close>: the last element alone, or nothing.\<close>

definition last_only :: "'a list \<Rightarrow> 'a list" where
  "last_only xs = (if xs = [] then [] else [last xs])"

text \<open>The bounds of the slice \<open>a[start:end]\<close> of an array of length \<open>n\<close>.\<close>

definition slice_bound :: "nat \<Rightarrow> int \<Rightarrow> nat" where
  "slice_bound n i = (if i < 0 then nat (max 0 (i + int n)) else min (nat i) n)"

text \<open>
  \<open>a[start:end] = v\<close> for an array \<open>v\<close>: numpy raises \<open>ValueError\<close> unless
  \<open>v\<close> has the length of the slice or length 1.
\<close>

definition assign_slice :: "'a list \<Rightarrow> int \<Rightarrow> int \<Rightarrow> 'a list \<Rightarrow> error + 'a list" where
  "assign_slice a start end v =
     (let lo = slice_bound (length a) start;
          hi = slice_bound (length a) end;
          m = hi - lo
      in if length v = m then
           Inr (map (\<lambda>k. if lo \<le> k \<and> k < hi then v ! (k - lo) else a ! k) [0..<length a])
         else if length v = 1 then
           Inr (map (\<lambda>k. if lo \<le> k \<and> k < hi then v ! 0 else a ! k) [0..<length a])
         else Inl ValueError)"

record twop2stimfr_result =
  twop2stimfr :: "int option list"
  stimfr_log :: "warning list"

text \<open>
  \<open>_get_twop2stimfr(self)\<close>: \<open>s2t\<close> is \<open>self.stim2twopfr\<close>, \<open>n_twop\<close> is
  \<open>len(self.twop2pupfr)\<close>.  The stimulus frame numbers are stored in a float
  array that starts as all \<open>NaN\<close> (\<open>None\<close>).
\<close>

definition get_twop2stimfr :: "int list \<Rightarrow> nat \<Rightarrow> error + twop2stimfr_result" where
  "get_twop2stimfr s2t n_twop =
     (let d = stim2twopfr_diff s2t;
          stim_idx0 = where_nonzero d;
          dropped = where_gt1 d;
          log1 = (if length dropped > 0 then [DroppedStimFrSeqs (length dropped)] else [])
      in case repair_loop d (last_only dropped) stim_idx0 of
           Inl e \<Rightarrow> Inl e
         | Inr stim_idx \<Rightarrow>
             if s2t = [] then Inl IndexError
             else
               let arr = replicate n_twop None;
                   start = hd s2t;
                   end = last s2t + 1
               in (case assign_slice arr start end (map (\<lambda>i. Some (int i)) stim_idx) of
                     Inl e \<Rightarrow>
                       Inr \<lparr>twop2stimfr = arr, stimfr_log = log1 @ [Twop2stimfrNotWorking]\<rparr>
                   | Inr arr' \<Rightarrow> Inr \<lparr>twop2stimfr = arr', stimfr_log = log1\<rparr>))"

section \<open>session.py: the segment table and its queries\<close>

text \<open>
  A stimulus is of type \<open>'gabors'\<close> or \<open>'bricks'\<close>; the \<open>stimType\<close> column of
  the table holds the first letter.
\<close>

datatype stimtype = Gabors | Bricks

fun stimtype_str :: "stimtype \<Rightarrow> string" where
  "stimtype_str Gabors = ''gabors''"
| "stimtype_str Bricks = ''bricks''"

text \<open>A value of a categorical column: a number (128, 45, 4) or a string (\<open>'right'\<close>).\<close>

datatype val = IntV int | StrV string

text \<open>One row of \<open>sess.stim_df\<close>.\<close>

record row =
  stimType :: string
  stimPar1 :: val
  stimPar2 :: val
  surp :: int
  stimSeg :: int
  gabfr :: int
  start2pfr :: int
  end2pfr :: int
  num2pfr :: int

text \<open>
  The attributes of a \<open>Stim\<close> object the queries read: its type, the session's
  table, and the segment ranges \<open>[start, end)\<close> of its blocks, grouped by display
  sequence.
\<close>

record stim =
  stimtype :: stimtype
  stim_df :: "row list"
  block_ran_seg :: "(int \<times> int) list list"

text \<open>
  A criterion: \<open>None\<close>, \<open>'any'\<close>, a literal value or a list of values.  A frame
  range criterion: \<open>'any'\<close>, \<open>None\<close> or a list \<open>[min, max]\<close>.
\<close>

datatype 'a crit = CNone | Any | One 'a | Many "'a list"

datatype range_arg = RangeAny | RangeNone | RangeList "int list"

text \<open>The keyword arguments of \<open>get_segs_by_criteria\<close> and their defaults.\<close>

record criteria =
  q_stimPar1 :: "val crit"
  q_stimPar2 :: "val crit"
  q_surp :: "int crit"
  q_stimSeg :: "int crit"
  q_gabfr :: "int crit"
  q_start2pfr :: range_arg
  q_end2pfr :: range_arg
  q_num2pfr :: range_arg
  q_gabk :: "val crit"
  q_gab_ori :: "val crit"
  q_bri_size :: "val crit"
  q_bri_dir :: "val crit"

definition default_criteria :: criteria where
  "default_criteria =
     \<lparr>q_stimPar1 = Any, q_stimPar2 = Any, q_surp = Any, q_stimSeg = Any, q_gabfr = Any,
      q_start2pfr = RangeAny, q_end2pfr = RangeAny, q_num2pfr = RangeAny,
      q_gabk = CNone, q_gab_ori = CNone, q_bri_size = CNone, q_bri_dir = CNone\<rparr>"

text \<open>
  Modelled from the spec: \<open>gen_util.get_df_vals\<close>, \<open>gen_util.get_df_label_vals\<close>
  and \<open>gen_util.remove_if\<close> are not among the sources.  A criterion is "a literal
  value, a list of allowed values, or the sentinel \<open>any\<close> (all observed values for
  that column, computed from the live table)"; the segment id \<open>-1\<close> "is excluded
  from all criteria queries".  \<open>get_df_vals\<close> is called with a column, the value
  wanted in it, and the column to read.
\<close>

definition get_df_vals :: "row list \<Rightarrow> string \<Rightarrow> (row \<Rightarrow> 'a) \<Rightarrow> 'a list" where
  "get_df_vals df st col = remdups (map col (filter (\<lambda>r. stimType r = st) df))"

definition get_df_label_vals :: "row list \<Rightarrow> (row \<Rightarrow> 'a) \<Rightarrow> 'a crit \<Rightarrow> 'a list" where
  "get_df_label_vals df col c =
     (case c of CNone \<Rightarrow> remdups (map col df) | Any \<Rightarrow> remdups (map col df)
      | One v \<Rightarrow> [v] | Many vs \<Rightarrow> vs)"

definition remove_if :: "int list \<Rightarrow> int \<Rightarrow> int list" where
  "remove_if vals rem = removeAll rem vals"

text \<open>
  One round of the loop over \<open>pars\<close> in \<open>_format_stim_criteria\<close>: the values
  a stimulus-specific argument (\<open>gabk\<close>, \<open>gab_ori\<close>, \<open>bri_size\<close>, \<open>bri_dir\<close>)
  adds to \<open>sp1\<close> or \<open>sp2\<close>.  The code passes \<open>self.stimtype\<close>, the full name,
  as the value wanted in the \<open>stimType\<close> column.
\<close>

definition par_vals :: "stim \<Rightarrow> (row \<Rightarrow> val) \<Rightarrow> val crit \<Rightarrow> val list" where
  "par_vals st col c =
     (case c of CNone \<Rightarrow> []
      | Any \<Rightarrow> get_df_vals (stim_df st) (stimtype_str (stimtype st)) col
      | One v \<Rightarrow> [v]
      | Many vs \<Rightarrow> vs)"

text \<open>Minimum and maximum of a non-empty column.\<close>

definition list_min :: "int list \<Rightarrow> int" where
  "list_min xs = fold min (tl xs) (hd xs)"

definition list_max :: "int list \<Rightarrow> int" where
  "list_max xs = fold max (tl xs) (hd xs)"

text \<open>
  \<open>len(start2pfr)\<close> and the unpacking \<open>lo, hi = x\<close> of a range argument; the
  string \<open>'any'\<close> has length 3.
\<close>

fun range_len :: "range_arg \<Rightarrow> error + nat" where
  "range_len RangeAny = Inr 3"
| "range_len RangeNone = Inl TypeError"
| "range_len (RangeList l) = Inr (length l)"

fun unpack2 :: "range_arg \<Rightarrow> error + (int \<times> int)" where
  "unpack2 (RangeList [a, b]) = Inr (a, b)"
| "unpack2 (RangeList l) = Inl ValueError"
| "unpack2 RangeAny = Inl ValueError"
| "unpack2 RangeNone = Inl TypeError"

text \<open>
  The three range blocks of \<open>_format_stim_criteria\<close>.  Each tests the length of
  \<open>start2pfr\<close>, also those for \<open>end2pfr\<close> and \<open>num2pfr\<close>.  The minimum of an
  empty column is \<open>NaN\<close>, and \<open>int(NaN)\<close> raises \<open>ValueError\<close>.
\<close>

definition format_range ::
  "row list \<Rightarrow> (row \<Rightarrow> int) \<Rightarrow> range_arg \<Rightarrow> range_arg \<Rightarrow> error + (int \<times> int)" where
  "format_range df col arg start_arg =
     (if arg = RangeAny \<or> arg = RangeNone then
        (if df = [] then Inl ValueError
         else Inr (list_min (map col df), list_max (map col df) + 1))
      else (case range_len start_arg of
              Inl e \<Rightarrow> Inl e
            | Inr n \<Rightarrow> if n = 2 then unpack2 arg else Inl ValueError))"

text \<open>The list \<open>_format_stim_criteria\<close> returns.\<close>

record fcrit =
  f_stimPar1 :: "val list"
  f_stimPar2 :: "val list"
  f_surp :: "int list"
  f_stimSeg :: "int list"
  f_gabfr :: "int list"
  f_start2pfr :: "int \<times> int"
  f_end2pfr :: "int \<times> int"
  f_num2pfr :: "int \<times> int"

definition format_stim_criteria :: "stim \<Rightarrow> criteria \<Rightarrow> error + fcrit" where
  "format_stim_criteria st c =
     (let df = stim_df st;
          gab = (stimtype st = Gabors);
          bri = (stimtype st = Bricks);
          bri_size = (if gab then CNone else q_bri_size c);
          bri_dir = (if gab then CNone else q_bri_dir c);
          gabfr_c = (if bri then CNone else q_gabfr c);
          gabk = (if bri then CNone else q_gabk c);
          gab_ori = (if bri then CNone else q_gab_ori c);
          sp2 = par_vals st stimPar2 gabk @ par_vals st stimPar2 bri_dir;
          sp1 = par_vals st stimPar1 gab_ori @ par_vals st stimPar1 bri_size;
          stimPar1_c = (if length sp1 \<noteq> 0 then Many sp1 else q_stimPar1 c);
          stimPar2_c = (if length sp2 \<noteq> 0 then Many sp2 else q_stimPar2 c)
      in ebind (format_range df start2pfr (q_start2pfr c) (q_start2pfr c)) (\<lambda>s2p.
         ebind (format_range df end2pfr (q_end2pfr c) (q_start2pfr c)) (\<lambda>e2p.
         ebind (format_range df num2pfr (q_num2pfr c) (q_start2pfr c)) (\<lambda>n2p.
         Inr \<lparr>f_stimPar1 = get_df_label_vals df stimPar1 stimPar1_c,
              f_stimPar2 = get_df_label_vals df stimPar2 stimPar2_c,
              f_surp = get_df_label_vals df surp (q_surp c),
              f_stimSeg = remove_if (get_df_label_vals df stimSeg (q_stimSeg c)) (- 1),
              f_gabfr = get_df_label_vals df gabfr gabfr_c,
              f_start2pfr = s2p, f_end2pfr = e2p, f_num2pfr = n2p\<rparr>))))"

text \<open>The row filter of \<open>get_segs_by_criteria\<close>, without the block range.\<close>

definition row_ok :: "stim \<Rightarrow> fcrit \<Rightarrow> row \<Rightarrow> bool" where
  "row_ok st fc r =
     (stimType r = take 1 (stimtype_str (stimtype st))
      \<and> stimPar1 r \<in> set (f_stimPar1 fc)
      \<and> stimPar2 r \<in> set (f_stimPar2 fc)
      \<and> surp r \<in> set (f_surp fc)
      \<and> stimSeg r \<in> set (f_stimSeg fc)
      \<and> gabfr r \<in> set (f_gabfr fc)
      \<and> start2pfr r \<ge> fst (f_start2pfr fc) \<and> start2pfr r < snd (f_start2pfr fc)
      \<and> end2pfr r \<ge> fst (f_end2pfr fc) \<and> end2pfr r < snd (f_end2pfr fc)
      \<and> num2pfr r \<ge> fst (f_num2pfr fc) \<and> num2pfr r < snd (f_num2pfr fc))"

text \<open>\<open>remconsec\<close>: a value is kept unless it follows its predecessor by one.\<close>

definition rem_consec :: "int list \<Rightarrow> int list" where
  "rem_consec idxs =
     map ((!) idxs) (filter (\<lambda>k. k = 0 \<or> idxs ! k \<noteq> idxs ! (k - 1) + 1) [0..<length idxs])"

text \<open>The segments of one block \<open>j\<close> that fit the criteria, in table order.\<close>

definition block_idxs :: "stim \<Rightarrow> fcrit \<Rightarrow> bool \<Rightarrow> int \<times> int \<Rightarrow> int list" where
  "block_idxs st fc remconsec j =
     (let idxs = map stimSeg
            (filter (\<lambda>r. row_ok st fc r \<and> stimSeg r \<ge> fst j \<and> stimSeg r < snd j) (stim_df st))
      in if remconsec then rem_consec idxs else idxs)"

text \<open>What \<open>get_segs_by_criteria\<close> returns, by the value of \<open>by\<close>.\<close>

datatype segs = ByDisp "int list list list" | ByBlock "int list list" | BySeg "int list"

definition get_segs_by_criteria :: "stim \<Rightarrow> criteria \<Rightarrow> bool \<Rightarrow> string \<Rightarrow> error + segs" where
  "get_segs_by_criteria st c remconsec by =
     (case format_stim_criteria st c of
        Inl e \<Rightarrow> Inl e
      | Inr fc \<Rightarrow>
          let segs = filter (\<lambda>temp. length temp \<noteq> 0)
                (map (\<lambda>i. filter (\<lambda>idxs. length idxs \<noteq> 0)
                             (map (block_idxs st fc remconsec) i))
                   (block_ran_seg st))
          in if length segs = 0 then Inl ValueError
             else if by = ''block'' then Inr (ByBlock (concat segs))
             else if by = ''seg'' then Inr (BySeg (concat (concat segs)))
             else if by = ''disp'' then Inr (ByDisp segs)
             else Inl ValueError)"

section \<open>quint\_analys.py: quintiles\<close>

text \<open>The fields of the named tuple \<open>StimPar\<close> that \<open>quint_segs\<close> reads.\<close>

record stimpar =
  sp_gabfr :: "int crit"
  sp_gabk :: "val crit"
  sp_gab_ori :: "val crit"
  sp_bri_dir :: "val crit"
  sp_bri_size :: "val crit"

text \<open>
  The functions of \<open>util.gen_util\<close> that the quintile code calls and that are
  not among the sources; they are parameters of the model.  \<open>pos_idx(idx, leng)\<close>
  prepares the indices of the quintiles to retain; \<open>consec(idx, smallest)\<close>
  returns the first value of each series of consecutive values and the length of
  each series (\<open>smallest\<close> is \<open>None\<close> where the call leaves it out).
\<close>

record gen_util =
  pos_idx :: "int list \<Rightarrow> int \<Rightarrow> error + int list"
  consec :: "int list \<Rightarrow> bool option \<Rightarrow> error + (int list \<times> nat list)"

text \<open>
  \<open>seg >= q * qu_len + seg_min and seg < (q + 1) * qu_len + seg_min\<close> with
  \<open>qu_len = (seg_max - seg_min)/float(n_quints)\<close>.  For \<open>n_quints = 0\<close> and
  numpy bounds, \<open>qu_len\<close> is infinite and one of the two comparisons is false for
  every \<open>q\<close>.  The floats are modelled as reals.
\<close>

definition in_quint :: "int \<Rightarrow> int \<Rightarrow> int \<Rightarrow> int \<Rightarrow> int \<Rightarrow> bool" where
  "in_quint n_quints seg_min seg_max q seg =
     (if n_quints = 0 then False
      else let qu_len = real_of_int (seg_max - seg_min) / real_of_int n_quints
           in real_of_int seg \<ge> real_of_int q * qu_len + real_of_int seg_min
              \<and> real_of_int seg < real_of_int (q + 1) * qu_len + real_of_int seg_min)"

text \<open>
  The two \<open>try\<close> blocks of \<open>quint_segs\<close>: a \<open>ValueError\<close> of the query is
  replaced by an empty list when \<open>empty_ok\<close> is set.
\<close>

definition query_segs :: "bool \<Rightarrow> error + segs \<Rightarrow> error + int list" where
  "query_segs empty_ok r =
     (case r of
        Inl e \<Rightarrow> if e = ValueError \<and> empty_ok then Inr [] else Inl e
      | Inr (BySeg l) \<Rightarrow> Inr l
      | Inr other \<Rightarrow> Inl TypeError)"

text \<open>The segment bounds \<open>(seg_min, seg_max)\<close> taken from the first query.\<close>

definition seg_bounds :: "int list \<Rightarrow> int \<times> int" where
  "seg_bounds all_segs =
     (if length all_segs \<noteq> 0 then (list_min all_segs, list_max all_segs + 1) else (0, 0))"

record quint_result =
  qu_segs :: "int list list"
  qu_counts :: "nat list"
  qu_n_consec :: "nat list list option"

text \<open>
  The keyword arguments of the two queries of \<open>quint_segs\<close>: the first one
  ("all seg values (for all gabor frames and orientations)") gives the bounds,
  the second one the segments that are split.
\<close>

definition bounds_criteria :: "stimpar \<Rightarrow> criteria" where
  "bounds_criteria sp =
     default_criteria\<lparr>q_gabk := sp_gabk sp, q_bri_dir := sp_bri_dir sp,
                        q_bri_size := sp_bri_size sp\<rparr>"

definition segs_criteria :: "stimpar \<Rightarrow> int crit \<Rightarrow> criteria" where
  "segs_criteria sp surp_c =
     default_criteria\<lparr>q_gabfr := sp_gabfr sp, q_gabk := sp_gabk sp,
                        q_gab_ori := sp_gab_ori sp, q_bri_dir := sp_bri_dir sp,
                        q_bri_size := sp_bri_size sp, q_surp := surp_c\<rparr>"

definition quint_segs ::
  "gen_util \<Rightarrow> stim \<Rightarrow> stimpar \<Rightarrow> int \<Rightarrow> int list option \<Rightarrow> int crit \<Rightarrow> bool \<Rightarrow> bool \<Rightarrow> bool
   \<Rightarrow> error + quint_result" where
  "quint_segs gu st sp n_quints qu_idx_arg surp_c empty_ok remconsec by_surp_len =
     ebind (case qu_idx_arg of None \<Rightarrow> Inr (map int [0..<nat n_quints])
            | Some l \<Rightarrow> pos_idx gu l n_quints) (\<lambda>qu_idx.
     ebind (query_segs empty_ok
              (get_segs_by_criteria st (bounds_criteria sp) False ''seg'')) (\<lambda>all_segs0.
     let (seg_min, seg_max) = seg_bounds all_segs0 in
     if n_quints = 0 \<and> length all_segs0 = 0 then Inl ZeroDivisionError
     else
     ebind (query_segs empty_ok
              (get_segs_by_criteria st (segs_criteria sp surp_c) remconsec ''seg''))
       (\<lambda>all_segs1.
     if by_surp_len then
       ebind (consec gu all_segs1 None) (\<lambda>(all_segs, n_consec).
         if qu_idx \<noteq> [] \<and> length n_consec > length all_segs then Inl IndexError
         else
           let qs = map (\<lambda>q. filter (in_quint n_quints seg_min seg_max q) all_segs) qu_idx
           in Inr \<lparr>qu_segs = qs, qu_counts = map length qs,
                   qu_n_consec = Some (map (\<lambda>q. map ((!) n_consec)
                       (filter (\<lambda>i. in_quint n_quints seg_min seg_max q (all_segs ! i))
                          [0..<length n_consec])) qu_idx)\<rparr>)
     else
       let qs = map (\<lambda>q. filter (in_quint n_quints seg_min seg_max q) all_segs1) qu_idx
       in Inr \<lparr>qu_segs = qs, qu_counts = map length qs, qu_n_consec = None\<rparr>)))"

subsection \<open>\<open>samp_quint_segs\<close>\<close>

text \<open>
  The first loop of \<open>samp_quint_segs\<close>, over the lengths \<open>n\<close> of the series of
  consecutive segments: \<open>i\<close> is the position of the series in the flat list,
  \<open>k\<close> counts the random draws made so far.  \<open>np.random.choice\<close> is modelled by
  a stream \<open>rng\<close> of numbers: the \<open>k\<close>-th draw from a list \<open>xs\<close> returns
  \<open>xs ! (rng k mod length xs)\<close>.  \<open>min\<close> of an empty list and a draw from an
  empty list raise \<open>ValueError\<close>.  \<open>seg_pre\<close> and \<open>seg_post\<close> are the values
  after \<open>int(np.around(...))\<close>.
\<close>

fun samp_runs ::
  "(nat \<Rightarrow> nat) \<Rightarrow> int list \<Rightarrow> int \<Rightarrow> int \<Rightarrow> nat list \<Rightarrow> nat \<Rightarrow> nat \<Rightarrow> error + int list" where
  "samp_runs rng flat seg_pre seg_post [] i k = Inr []"
| "samp_runs rng flat seg_pre seg_post (n # ns) i k =
     (let qu_sub = take n (drop i flat) in
      if qu_sub = [] then Inl ValueError
      else
        let min_seg = list_min qu_sub + seg_pre;
            max_seg = list_max qu_sub - seg_post
        in if min_seg < max_seg then
             (let qu_samp = filter (\<lambda>seg. min_seg \<le> seg \<and> seg < max_seg) qu_sub in
              if qu_samp = [] then Inl ValueError
              else (case samp_runs rng flat seg_pre seg_post ns (i + n) (Suc k) of
                      Inl e \<Rightarrow> Inl e
                    | Inr rest \<Rightarrow> Inr (qu_samp ! (rng k mod length qu_samp) # rest)))
           else samp_runs rng flat seg_pre seg_post ns (i + n) k)"

text \<open>The second loop: the samples that fall into the range of one quintile.\<close>

definition quint_samps :: "int list \<Rightarrow> int list \<Rightarrow> error + int list" where
  "quint_samps samp_segs sub_segs =
     (if sub_segs = [] then Inl ValueError
      else Inr (filter (\<lambda>seg. list_min sub_segs \<le> seg \<and> seg < list_max sub_segs) samp_segs))"

definition samp_quint_segs ::
  "gen_util \<Rightarrow> (nat \<Rightarrow> nat) \<Rightarrow> int list list \<Rightarrow> int \<Rightarrow> int
   \<Rightarrow> error + (int list list \<times> nat list)" where
  "samp_quint_segs gu rng qu_segs_in seg_pre seg_post =
     (let qu_segs_flat = concat qu_segs_in;
          d = np_diff_int qu_segs_flat
      in if d = [] then Inl ValueError
         else if list_min d \<noteq> 1 \<and> list_min d \<noteq> 4 then Inl ValueError
         else
           ebind (consec gu qu_segs_flat (Some True)) (\<lambda>(all_segs, n_consec).
           ebind (samp_runs rng qu_segs_flat seg_pre seg_post
                    (take (length all_segs) n_consec) 0 0) (\<lambda>samp_segs.
           ebind (emap (quint_samps samp_segs) qu_segs_in) (\<lambda>qu_samp_segs.
           Inr (qu_samp_segs, map length qu_samp_segs)))))"

subsection \<open>An instance of the missing helpers\<close>

text \<open>
  Modelled from the spec: \<open>gen_util.pos_idx\<close> and \<open>gen_util.consec\<close> are not
  among the sources.  Consecutive-run detection "collapses consecutive runs" of
  ids "to only the first id of each run" and reports "per retained
  representative, how many consecutive original segments it represents"; with
  \<open>smallest\<close> the smallest interval present counts as consecutive.  Quintile
  indices may count from the end.  The theorems below hold for every instance of
  \<open>gen_util\<close>; this one is used where a concrete one is needed.
\<close>

fun consec_runs :: "int \<Rightarrow> int list \<Rightarrow> (int \<times> nat) list" where
  "consec_runs d [] = []"
| "consec_runs d [x] = [(x, 1)]"
| "consec_runs d (x # y # ys) =
     (if y = x + d then
        (case consec_runs d (y # ys) of [] \<Rightarrow> [(x, 1)] | (f, n) # rest \<Rightarrow> (x, Suc n) # rest)
      else (x, 1) # consec_runs d (y # ys))"

definition consec_model :: "int list \<Rightarrow> bool option \<Rightarrow> error + (int list \<times> nat list)" where
  "consec_model idx smallest =
     (let interv = (if smallest = Some True \<and> np_diff_int idx \<noteq> []
                    then list_min (np_diff_int idx) else 1);
          rs = consec_runs interv idx
      in Inr (map fst rs, map snd rs))"

definition pos_idx_model :: "int list \<Rightarrow> int \<Rightarrow> error + int list" where
  "pos_idx_model idx leng = Inr (map (\<lambda>i. if i < 0 then leng + i else i) idx)"

definition gen_util_model :: gen_util where
  "gen_util_model = \<lparr>pos_idx = pos_idx_model, consec = consec_model\<rparr>"

subsection \<open>Auxiliary notions for the proofs\<close>

text \<open>
  The segments of all blocks that fit the formatted criteria, in the order of the
  blocks: the list a query with \<open>by = 'seg'\<close> returns when it is not empty.
\<close>

definition flat_idxs :: "stim \<Rightarrow> fcrit \<Rightarrow> bool \<Rightarrow> int list" where
  "flat_idxs st fc remconsec =
     concat (map (block_idxs st fc remconsec) (concat (block_ran_seg st)))"

text \<open>
  The number of the quintile that segment \<open>s\<close> falls into, when the bounds are
  taken from the non-empty list \<open>A\<close> and there are \<open>n\<close> quintiles.
\<close>

definition quint_of :: "int \<Rightarrow> int list \<Rightarrow> int \<Rightarrow> int" where
  "quint_of n A s =
     \<lfloor>real_of_int (s - list_min A) * real_of_int n
        / real_of_int (list_max A + 1 - list_min A)\<rfloor>"

text \<open>
  The test of the running-speed scan: the sample \<open>x\<close> is further than \<open>thr\<close>
  from the comparison value \<open>g\<close>, as \<open>np.absolute(x - g) > thr\<close> finds it.
\<close>

definition outl :: "real \<Rightarrow> real \<Rightarrow> real \<Rightarrow> bool" where
  "outl thr x g = fl_gt (fl_abs (fl_sub (Fin x) (Fin g))) thr"

text \<open>
  The scan as a recursion over the samples that follow a good sample \<open>g\<close>: a
  sample further than \<open>thr\<close> from the last good sample is an outlier, any other
  sample is good and becomes the sample to compare with.  \<open>outlier_labels\<close>
  marks the outliers of a whole recording, whose first sample counts as good.
\<close>

fun run_labels :: "real \<Rightarrow> real \<Rightarrow> real list \<Rightarrow> bool list" where
  "run_labels thr g [] = []"
| "run_labels thr g (x # xs) =
     (if outl thr x g then True # run_labels thr g xs else False # run_labels thr x xs)"

definition outlier_labels :: "real \<Rightarrow> real list \<Rightarrow> bool list" where
  "outlier_labels thr xs = (case xs of [] \<Rightarrow> [] | x # rest \<Rightarrow> False # run_labels thr x rest)"

text \<open>
  The samples with every outlier replaced by NaN, and with every outlier replaced
  by the mean of the last good sample before it and the first good sample after
  it (\<open>next_good\<close>).
\<close>

fun excl :: "real \<Rightarrow> real \<Rightarrow> real list \<Rightarrow> f64 list" where
  "excl thr g [] = []"
| "excl thr g (x # xs) =
     (if outl thr x g then NaN # excl thr g xs else Fin x # excl thr x xs)"

fun next_good :: "real \<Rightarrow> real \<Rightarrow> real list \<Rightarrow> f64" where
  "next_good thr g [] = NaN"
| "next_good thr g (x # xs) = (if outl thr x g then next_good thr g xs else Fin x)"

fun interp :: "real \<Rightarrow> real \<Rightarrow> real list \<Rightarrow> f64 list" where
  "interp thr g [] = []"
| "interp thr g (x # xs) =
     (if outl thr x g then fl_mean2 (Fin g) (next_good thr g (x # xs)) # interp thr g xs
      else Fin x # interp thr x xs)"

text \<open>
  Linear interpolation, as the specification words it: the value at the \<open>k\<close>-th
  of \<open>n\<close> samples that lie between a sample of value \<open>a\<close> and a sample of value
  \<open>b\<close>, all equally spaced.
\<close>

definition lin_interp :: "real \<Rightarrow> real \<Rightarrow> nat \<Rightarrow> nat \<Rightarrow> real" where
  "lin_interp a b n k = a + (b - a) * real k / real (n + 1)"

section \<open>Properties of the ROI groups\<close>

lemma py_set_ints: "py_set (PList (map PInt a)) = Inr (remdups a)"
  by (simp add: list_all_iff comp_def)

lemma sort_upt_id: "sort [0..<n] = [0..<n]"
  by (simp add: sorted_sort_id)

lemma grp_ind_of_all: "reg_ind < n \<Longrightarrow> grp_ind_of n c nc r i reg_ind add_reg ''all'' = Inr [0..<n]"
  by (simp add: grp_ind_of_def sort_upt_id)

lemma upto_set_distinct: "distinct [0..n - 1] \<and> set [0..n - 1] = {0..<n}"
  by auto

lemma roi_grps_1_partition:
  assumes "set s0 \<subseteq> {0..<nrois}" "set s1 \<subseteq> {0..<nrois}" "distinct s0" "distinct s1"
  shows "distinct (concat (roi_grps_1 s0 s1 nrois))"
    and "set (concat (roi_grps_1 s0 s1 nrois)) = {0..<nrois}"
  using assms by (auto simp: roi_grps_1_def set_inter_def set_diff_def Let_def)

lemma roi_grps_2_partition:
  assumes "set s00 \<subseteq> {0..<nrois}" "set s01 \<subseteq> {0..<nrois}"
    "set s10 \<subseteq> {0..<nrois}" "set s11 \<subseteq> {0..<nrois}"
    "distinct s00" "distinct s01" "distinct s10" "distinct s11"
    "set s00 \<inter> set s01 = {}" "set s10 \<inter> set s11 = {}"
  shows "distinct (concat (roi_grps_2 s00 s01 s10 s11 nrois))"
    and "set (concat (roi_grps_2 s00 s01 s10 s11 nrois)) = {0..<nrois}"
  using assms by (auto simp: roi_grps_2_def set_inter_def set_diff_def)

lemma map_nth_upt_all: "map ((!) xs) [0..<length xs] = xs"
  by (simp add: map_nth)

lemma partition_sizes:
  assumes "distinct (concat gs)" "set (concat gs) = {0..<n::int}"
  shows "sum_list (map length gs) = nat n"
proof -
  have "sum_list (map length gs) = length (concat gs)" by (simp add: length_concat)
  also have "\<dots> = card (set (concat gs))" using distinct_card[OF assms(1)] by simp
  also have "\<dots> = nat n" using assms(2) by simp
  finally show ?thesis .
qed


lemma sep_grps_one_tailed:
  assumes "tls = TailStr ''up'' \<or> tls = TailStr ''lo''"
  shows "sep_grps (PList [PList (map PInt a), PList (map PInt b)]) nrois (GrpStr ''all'') tls add_reg
     = Inr (OneSet (roi_grps_1 (remdups a) (remdups b) nrois), OneSet grp_names_1)"
proof -
  have len: "length (roi_grps_1 (remdups a) (remdups b) nrois) = 4" "length grp_names_1 = 4"
    by (simp_all add: roi_grps_1_def grp_names_1_def Let_def)
  have sel: "select_grps [''all''] (roi_grps_1 (remdups a) (remdups b) nrois) grp_names_1 [[0..<4]]
      = (OneSet (roi_grps_1 (remdups a) (remdups b) nrois), OneSet grp_names_1)"
    unfolding select_grps_def Let_def using map_nth_upt_all len
    by (metis (no_types, lifting) One_nat_def length_Cons list.map(2) list.simps(8) list.size(3) nth_Cons_0)
  show ?thesis
    using assms
    by (auto simp add: sep_grps_def ebind_def py_set_ints grp_ind_of_all sel
        simp del: py_set.simps upt_Suc)
qed

lemma sep_grps_two_tailed:
  assumes "tls = TailStr ''2'' \<or> tls = TailInt 2"
  shows "sep_grps (PList [PList [PList (map PInt lo0), PList (map PInt up0)],
                          PList [PList (map PInt lo1), PList (map PInt up1)]])
            nrois (GrpStr ''all'') tls add_reg
     = Inr (OneSet (roi_grps_2 (remdups lo0) (remdups up0) (remdups lo1) (remdups up1) nrois),
            OneSet grp_names_2)"
proof -
  let ?g = "roi_grps_2 (remdups lo0) (remdups up0) (remdups lo1) (remdups up1) nrois"
  have len: "length ?g = 9" "length grp_names_2 = 9"
    by (simp_all add: roi_grps_2_def grp_names_2_def)
  have sel: "select_grps [''all''] ?g grp_names_2 [[0..<9]] = (OneSet ?g, OneSet grp_names_2)"
    unfolding select_grps_def Let_def using map_nth_upt_all len
    by (metis (no_types, lifting) One_nat_def length_Cons list.map(2) list.simps(8) list.size(3) nth_Cons_0)
  show ?thesis
    using assms
    by (auto simp add: sep_grps_def ebind_def py_set_ints grp_ind_of_all sel
        simp del: py_set.simps upt_Suc)
qed

lemma sep_grps_partition_of_lists:
  "(tls = TailStr ''up'' \<or> tls = TailStr ''lo'' \<longrightarrow>
      set a \<subseteq> {0..<nrois} \<longrightarrow> set b \<subseteq> {0..<nrois} \<longrightarrow>
      (\<exists>gs. sep_grps (PList [PList (map PInt a), PList (map PInt b)]) nrois
               (GrpStr ''all'') tls add_reg = Inr (OneSet gs, OneSet grp_names_1)
          \<and> length gs = 4
          \<and> sum_list (map length gs) = nat nrois
          \<and> distinct (concat gs) \<and> set (concat gs) = {0..<nrois}))
   \<and> (tls = TailStr ''2'' \<or> tls = TailInt 2 \<longrightarrow>
      set loa \<union> set upa \<union> set lob \<union> set upb \<subseteq> {0..<nrois} \<longrightarrow>
      set loa \<inter> set upa = {} \<longrightarrow> set lob \<inter> set upb = {} \<longrightarrow>
      (\<exists>gs. sep_grps (PList [PList [PList (map PInt loa), PList (map PInt upa)],
                               PList [PList (map PInt lob), PList (map PInt upb)]]) nrois
               (GrpStr ''all'') tls add_reg = Inr (OneSet gs, OneSet grp_names_2)
          \<and> length gs = 9
          \<and> sum_list (map length gs) = nat nrois
          \<and> distinct (concat gs) \<and> set (concat gs) = {0..<nrois}))"
proof (intro conjI impI)
  assume t: "tls = TailStr ''up'' \<or> tls = TailStr ''lo''"
    and a: "set a \<subseteq> {0..<nrois}" and b: "set b \<subseteq> {0..<nrois}"
  let ?g = "roi_grps_1 (remdups a) (remdups b) nrois"
  have d: "distinct (concat ?g)" and s: "set (concat ?g) = {0..<nrois}"
    using roi_grps_1_partition[of "remdups a" nrois "remdups b"] a b by simp_all
  have "length ?g = 4" by (simp add: roi_grps_1_def Let_def)
  with d s partition_sizes[OF d s] sep_grps_one_tailed[OF t]
  show "\<exists>gs. sep_grps (PList [PList (map PInt a), PList (map PInt b)]) nrois
               (GrpStr ''all'') tls add_reg = Inr (OneSet gs, OneSet grp_names_1)
          \<and> length gs = 4
          \<and> sum_list (map length gs) = nat nrois
          \<and> distinct (concat gs) \<and> set (concat gs) = {0..<nrois}"
    by blast
next
  assume t: "tls = TailStr ''2'' \<or> tls = TailInt 2"
    and r: "set loa \<union> set upa \<union> set lob \<union> set upb \<subseteq> {0..<nrois}"
    and d0: "set loa \<inter> set upa = {}" and d1: "set lob \<inter> set upb = {}"
  let ?g = "roi_grps_2 (remdups loa) (remdups upa) (remdups lob) (remdups upb) nrois"
  have d: "distinct (concat ?g)" and s: "set (concat ?g) = {0..<nrois}"
    using roi_grps_2_partition[of "remdups loa" nrois "remdups upa" "remdups lob" "remdups upb"]
      r d0 d1 by simp_all
  have "length ?g = 9" by (simp add: roi_grps_2_def)
  with d s partition_sizes[OF d s] sep_grps_two_tailed[OF t]
  show "\<exists>gs. sep_grps (PList [PList [PList (map PInt loa), PList (map PInt upa)],
                               PList [PList (map PInt lob), PList (map PInt upb)]]) nrois
               (GrpStr ''all'') tls add_reg = Inr (OneSet gs, OneSet grp_names_2)
          \<and> length gs = 9
          \<and> sum_list (map length gs) = nat nrois
          \<and> distinct (concat gs) \<and> set (concat gs) = {0..<nrois}"
    by blast
qed

lemma labelled_rois_range: "set (filter (\<lambda>i. P (lab i)) [0..nrois - 1]) \<subseteq> {0..<nrois}"
  by auto

text \<open>
  Claim C4.  For every significance-label assignment over \<open>nrois\<close> ROIs, that is
  for every choice of a label per ROI and quintile, and for each value of
  \<open>tails\<close>, \<open>sep_grps\<close> with \<open>grps = 'all'\<close> returns the elementary ROI groups
  (four for one tail, nine for two tails), and they partition the ROI indices
  \<open>0, ..., nrois - 1\<close>: the group sizes add up to \<open>nrois\<close>, no index is in two
  groups (or twice in one), and every index is in some group.
\<close>

theorem sep_grps_elementary_partition:
  "(\<exists>gs. sep_grps (sign_rois_1 lab0 lab1 nrois) nrois (GrpStr ''all'') (TailStr ''up'') add_reg
            = Inr (OneSet gs, OneSet grp_names_1)
       \<and> length gs = 4 \<and> sum_list (map length gs) = nat nrois
       \<and> distinct (concat gs) \<and> set (concat gs) = {0..<nrois})
   \<and> (\<exists>gs. sep_grps (sign_rois_1 lab0 lab1 nrois) nrois (GrpStr ''all'') (TailStr ''lo'') add_reg
            = Inr (OneSet gs, OneSet grp_names_1)
       \<and> length gs = 4 \<and> sum_list (map length gs) = nat nrois
       \<and> distinct (concat gs) \<and> set (concat gs) = {0..<nrois})
   \<and> (\<exists>gs. sep_grps (sign_rois_2 lab0 lab1 nrois) nrois (GrpStr ''all'') (TailInt 2) add_reg
            = Inr (OneSet gs, OneSet grp_names_2)
       \<and> length gs = 9 \<and> sum_list (map length gs) = nat nrois
       \<and> distinct (concat gs) \<and> set (concat gs) = {0..<nrois})
   \<and> (\<exists>gs. sep_grps (sign_rois_2 lab0 lab1 nrois) nrois (GrpStr ''all'') (TailStr ''2'') add_reg
            = Inr (OneSet gs, OneSet grp_names_2)
       \<and> length gs = 9 \<and> sum_list (map length gs) = nat nrois
       \<and> distinct (concat gs) \<and> set (concat gs) = {0..<nrois})"
proof -
  let ?s = "\<lambda>lab. filter (\<lambda>i. lab i = SigUp \<or> lab i = SigLo) [0..nrois - 1]"
  let ?lo = "\<lambda>lab. filter (\<lambda>i. lab i = SigLo) [0..nrois - 1]"
  let ?up = "\<lambda>lab. filter (\<lambda>i. lab i = SigUp) [0..nrois - 1]"
  have one: "\<exists>gs. sep_grps (sign_rois_1 lab0 lab1 nrois) nrois (GrpStr ''all'') tls add_reg
            = Inr (OneSet gs, OneSet grp_names_1)
       \<and> length gs = 4 \<and> sum_list (map length gs) = nat nrois
       \<and> distinct (concat gs) \<and> set (concat gs) = {0..<nrois}"
    if "tls = TailStr ''up'' \<or> tls = TailStr ''lo''" for tls
    using sep_grps_partition_of_lists[where tls = tls and a = "?s lab0" and b = "?s lab1"
        and nrois = nrois and add_reg = add_reg, THEN conjunct1] that
      labelled_rois_range[of "\<lambda>l. l = SigUp \<or> l = SigLo" lab0 nrois]
      labelled_rois_range[of "\<lambda>l. l = SigUp \<or> l = SigLo" lab1 nrois]
    unfolding sign_rois_1_def rois_where_def by blast
  have r: "set (?lo lab0) \<union> set (?up lab0) \<union> set (?lo lab1) \<union> set (?up lab1) \<subseteq> {0..<nrois}"
    by auto
  have d: "set (?lo lab0) \<inter> set (?up lab0) = {}" "set (?lo lab1) \<inter> set (?up lab1) = {}"
    by auto
  have two: "\<exists>gs. sep_grps (sign_rois_2 lab0 lab1 nrois) nrois (GrpStr ''all'') tls add_reg
            = Inr (OneSet gs, OneSet grp_names_2)
       \<and> length gs = 9 \<and> sum_list (map length gs) = nat nrois
       \<and> distinct (concat gs) \<and> set (concat gs) = {0..<nrois}"
    if "tls = TailStr ''2'' \<or> tls = TailInt 2" for tls
    using sep_grps_partition_of_lists[where tls = tls and loa = "?lo lab0" and upa = "?up lab0"
        and lob = "?lo lab1" and upb = "?up lab1" and nrois = nrois and add_reg = add_reg,
        THEN conjunct2] that r d
    unfolding sign_rois_2_def rois_where_def by blast
  show ?thesis
    using one[of "TailStr ''up''"] one[of "TailStr ''lo''"] two[of "TailInt 2"]
      two[of "TailStr ''2''"]
    by simp
qed

text \<open>
  An assignment for five ROIs: ROI 0 is significant in the first quintile only,
  ROI 1 in both (upper tail, then lower tail), ROI 3 in the last quintile only,
  ROIs 2 and 4 in neither.
\<close>

theorem sep_grps_elementary_partition_witness:
  "sep_grps (sign_rois_2 (\<lambda>i. if i = 0 then SigLo else if i = 1 then SigUp else SigNo)
                         (\<lambda>i. if i = 1 then SigLo else if i = 3 then SigUp else SigNo) 5)
       5 (GrpStr ''all'') (TailInt 2) False
     = Inr (OneSet [[], [1], [], [], [], [0], [3], [], [2, 4]], OneSet grp_names_2)
   \<and> sum_list (map length [[], [1], [], [], [], [0], [3], [], [2, 4 :: int]]) = nat 5
   \<and> sep_grps (sign_rois_1 (\<lambda>i. if i = 0 \<or> i = 1 then SigUp else SigNo)
                           (\<lambda>i. if i = 1 \<or> i = 3 then SigUp else SigNo) 5)
       5 (GrpStr ''all'') (TailStr ''up'') False
     = Inr (OneSet [[1], [0], [3], [2, 4]], OneSet grp_names_1)"
proof -
  let ?l0 = "\<lambda>i::int. if i = 0 then SigLo else if i = 1 then SigUp else SigNo"
  let ?l1 = "\<lambda>i::int. if i = 1 then SigLo else if i = 3 then SigUp else SigNo"
  let ?m0 = "\<lambda>i::int. if i = 0 \<or> i = 1 then SigUp else SigNo"
  let ?m1 = "\<lambda>i::int. if i = 1 \<or> i = 3 then SigUp else SigNo"
  have u: "[0..5 - 1] = [0, 1, 2, 3, 4 :: int]" by code_simp
  have v: "[0..4] = [0, 1, 2, 3, 4 :: int]" by code_simp
  have s2: "sign_rois_2 ?l0 ?l1 5
      = PList [PList [PList (map PInt [0]), PList (map PInt [1])],
               PList [PList (map PInt [1]), PList (map PInt [3])]]"
    unfolding sign_rois_2_def rois_where_def u by simp
  have s1: "sign_rois_1 ?m0 ?m1 5 = PList [PList (map PInt [0, 1]), PList (map PInt [1, 3])]"
    unfolding sign_rois_1_def rois_where_def u by simp
  from sep_grps_elementary_partition[of ?l0 ?l1 5 False, THEN conjunct2, THEN conjunct2,
      THEN conjunct1]
  obtain gs where g: "sep_grps (sign_rois_2 ?l0 ?l1 5) 5 (GrpStr ''all'') (TailInt 2) False
        = Inr (OneSet gs, OneSet grp_names_2)"
    and n: "sum_list (map length gs) = nat 5"
    by blast
  have "sep_grps (sign_rois_2 ?l0 ?l1 5) 5 (GrpStr ''all'') (TailInt 2) False
      = Inr (OneSet [[], [1], [], [], [], [0], [3], [], [2, 4]], OneSet grp_names_2)"
    unfolding s2
    using sep_grps_two_tailed[of "TailInt 2" "[0]" "[1]" "[1]" "[3]" 5 False]
    by (simp add: roi_grps_2_def set_inter_def set_diff_def v)
  moreover from this g n
  have "sum_list (map length [[], [1], [], [], [], [0], [3], [], [2, 4 :: int]]) = nat 5"
    by simp
  moreover have "sep_grps (sign_rois_1 ?m0 ?m1 5) 5 (GrpStr ''all'') (TailStr ''up'') False
      = Inr (OneSet [[1], [0], [3], [2, 4]], OneSet grp_names_1)"
    unfolding s1
    using sep_grps_one_tailed[of "TailStr ''up''" "[0, 1]" "[1, 3]" 5 False]
    by (simp add: roi_grps_1_def set_inter_def set_diff_def v Let_def)
  ultimately show ?thesis by blast
qed

section \<open>Properties of the multiple-comparison correction\<close>

text \<open>
  Claim C3.  For a session with \<open>nrois\<close> ROIs and two quintiles, the permutation
  test is run with the p-value \<open>p_val / (nrois * 2)\<close> and with
  \<open>max(n_perms, ceil(1 / p))\<close> permutations, \<open>p\<close> being that p-value; for
  10 comparisons (5 ROIs) and \<open>p_val = 0.05\<close> the p-value is 0.005 and there
  are at least 200 permutations.
\<close>

theorem mult_comp_correction:
  "(0 < nrois \<longrightarrow> 0 < p_val \<longrightarrow>
      signif_rois_perm_args [q0, q1] nrois p_val n_perms
        = Inr (p_val / (real_of_int nrois * 2),
               max n_perms \<lceil>1 / (p_val / (real_of_int nrois * 2))\<rceil>))
   \<and> signif_rois_perm_args [q0, q1] 5 (5 / 100) n_perms = Inr (5 / 1000, max n_perms 200)
   \<and> 200 \<le> max n_perms 200
   \<and> calc_mult_comp 10 (5 / 100) n_perms = Inr (5 / 1000, max n_perms 200)"
  by (simp add: signif_rois_perm_args_def calc_mult_comp_def Let_def)

theorem mult_comp_correction_witness:
  "signif_rois_perm_args [''first quint'', ''last quint''] 5 (5 / 100) 100
     = Inr (5 / 1000, 200)"
  using mult_comp_correction[of 5 "5 / 100" "''first quint''" "''last quint''" 100]
  by simp

section \<open>Properties of the session loading steps\<close>

lemma repair_ex:
  "repair_loop (stim2twopfr_diff [0, 1, 3, 4, 6])
        (last_only (where_gt1 (stim2twopfr_diff [0, 1, 3, 4, 6])))
        (where_nonzero (stim2twopfr_diff [0, 1, 3, 4, 6]))
       = Inr [0, 1, 2, 3, 3, 4]"
  by (simp add: stim2twopfr_diff_def np_diff_int_def where_gt1_def where_nonzero_def
      last_only_def repair_drop_def)

lemma where_gt1_ex: "where_gt1 (stim2twopfr_diff [0, 1, 3, 4, 6]) = [2, 4]"
  by (simp add: stim2twopfr_diff_def np_diff_int_def where_gt1_def)

text \<open>
  Claim C5 at a failing input.  The stimulus frames 0 to 4 start at the 2p frames
  0, 1, 3, 4, 6: two sequences of dropped frames, at positions 2 and 4.  The
  warning counts both, but the repair loop runs over \<open>dropped[-1:]\<close>, the last
  one only: 3 is repeated before position 4 and nothing is inserted at
  position 2.  The repaired list has 6 entries for the 7 2p frames, the
  assignment fails, and the alignment stays all \<open>NaN\<close>.
\<close>

theorem get_twop2stimfr_repairs_last_only:
  "get_twop2stimfr [0, 1, 3, 4, 6] 7
     = Inr \<lparr>twop2stimfr = replicate 7 None,
            stimfr_log = [DroppedStimFrSeqs 2, Twop2stimfrNotWorking]\<rparr>
   \<and> where_gt1 (stim2twopfr_diff [0, 1, 3, 4, 6]) = [2, 4]
   \<and> repair_loop (stim2twopfr_diff [0, 1, 3, 4, 6])
        (last_only (where_gt1 (stim2twopfr_diff [0, 1, 3, 4, 6])))
        (where_nonzero (stim2twopfr_diff [0, 1, 3, 4, 6]))
       = Inr [0, 1, 2, 3, 3, 4]"
proof -
  have "get_twop2stimfr [0, 1, 3, 4, 6] 7
     = Inr \<lparr>twop2stimfr = replicate 7 None,
            stimfr_log = [DroppedStimFrSeqs 2, Twop2stimfrNotWorking]\<rparr>"
    unfolding get_twop2stimfr_def Let_def repair_ex
    unfolding where_gt1_ex
    by (simp add: assign_slice_def slice_bound_def)
  then show ?thesis using repair_ex where_gt1_ex by blast
qed

section \<open>Properties of the running-speed repair\<close>

lemma bit_len_nonneg: "0 \<le> bit_len n"
  by (induction n rule: bit_len.induct) (subst bit_len.simps, simp)

lemma bit_len_one: "bit_len 1 = 1"
  by (subst bit_len.simps, subst bit_len.simps) simp

lemma bit_len_lower: "1 \<le> n \<Longrightarrow> (2::int) ^ nat (bit_len n - 1) \<le> n"
proof (induction n rule: bit_len.induct)
  case (1 n)
  have bl: "bit_len n = 1 + bit_len (n div 2)"
    using "1.prems" by (subst bit_len.simps) simp
  show ?case
  proof (cases "n = 1")
    case True
    then show ?thesis by (simp add: bit_len_one)
  next
    case False
    with "1.prems" have h: "1 \<le> n div 2" by simp
    have ih: "(2::int) ^ nat (bit_len (n div 2) - 1) \<le> n div 2"
      using "1.IH" "1.prems" h by simp
    have pos: "1 \<le> bit_len (n div 2)"
      using h bit_len_nonneg[of "n div 2 div 2"] by (subst bit_len.simps) simp
    then have "nat (bit_len (n div 2)) = Suc (nat (bit_len (n div 2) - 1))" by simp
    then have "(2::int) ^ nat (bit_len (n div 2)) = 2 * 2 ^ nat (bit_len (n div 2) - 1)"
      by simp
    also have "\<dots> \<le> 2 * (n div 2)" using ih by simp
    also have "\<dots> \<le> n" by simp
    finally show ?thesis by (simp add: bl)
  qed
qed

text \<open>
  A number whose double is an integer of at most 53 bits is a \<open>float64\<close>:
  rounding leaves it as it is.
\<close>

lemma ilog2_range:
  assumes "1 / 2 \<le> x" "x \<le> 2 ^ 52"
  shows "- 1 \<le> ilog2 x \<and> ilog2 x \<le> 52 \<and> (ilog2 x = 52 \<longrightarrow> x = 2 ^ 52)"
proof (cases "1 \<le> x")
  case True
  then have f1: "1 \<le> \<lfloor>x\<rfloor>" by simp
  have e0: "0 \<le> bit_len \<lfloor>x\<rfloor> - 1"
    using f1 bit_len_nonneg[of "\<lfloor>x\<rfloor> div 2"] by (subst bit_len.simps) simp
  have "real_of_int ((2::int) ^ nat (bit_len \<lfloor>x\<rfloor> - 1)) \<le> real_of_int \<lfloor>x\<rfloor>"
    using bit_len_lower[OF f1] by (simp only: of_int_le_iff)
  also have "\<dots> \<le> x" by simp
  finally have lo: "(2::real) ^ nat (bit_len \<lfloor>x\<rfloor> - 1) \<le> x" by simp
  with assms(2) have "(2::real) ^ nat (bit_len \<lfloor>x\<rfloor> - 1) \<le> 2 ^ 52" by simp
  then have le: "nat (bit_len \<lfloor>x\<rfloor> - 1) \<le> 52"
    by (rule power_le_imp_le_exp[rotated]) simp
  have "bit_len \<lfloor>x\<rfloor> - 1 = 52 \<longrightarrow> x = 2 ^ 52"
  proof
    assume "bit_len \<lfloor>x\<rfloor> - 1 = 52"
    then have "(2::real) ^ 52 \<le> x" using lo by simp
    with assms(2) show "x = 2 ^ 52" by simp
  qed
  with True e0 le show ?thesis by (simp add: ilog2_def)
next
  case False
  then have "1 < 1 / x" "1 / x \<le> 2" using assms(1) by (simp_all add: field_simps)
  then have "\<lceil>1 / x\<rceil> = 2" by (simp add: ceiling_eq_iff)
  with False show ?thesis by (simp add: ilog2_def bit_len_one)
qed

lemma round_even_int: "round_even (real_of_int k) = k"
  by (simp add: round_even_def)

lemma rnd64_exact_pos:
  assumes x: "0 < x" and h: "2 * x \<in> \<int>" and b: "x \<le> 2 ^ 52"
  shows "rnd64 x = x \<and> rnd64 (- x) = - x"
proof -
  from h obtain k where k: "2 * x = real_of_int k" by (auto elim: Ints_cases)
  have k1: "1 \<le> k" using x k by linarith
  then have half: "1 / 2 \<le> x" using k by linarith
  let ?E = "ilog2 x"
  have E: "- 1 \<le> ?E" "?E \<le> 52" "?E = 52 \<longrightarrow> x = 2 ^ 52"
    using ilog2_range[OF half b] by simp_all
  have mx: "max ?E (- 1022) - 52 = ?E - 52" using E(1) by simp
  have u: "pow2 (?E - 52) = 1 / 2 ^ nat (52 - ?E)"
    using E(2) by (cases "?E = 52") (simp_all add: pow2_def)
  have "\<exists>m. x * 2 ^ nat (52 - ?E) = real_of_int m"
  proof (cases "?E = 52")
    case True
    with E(3) have "x * 2 ^ nat (52 - ?E) = real_of_int (2 ^ 52)" by simp
    then show ?thesis by blast
  next
    case False
    with E(2) have "nat (52 - ?E) = Suc (nat (51 - ?E))" by simp
    then have "x * 2 ^ nat (52 - ?E) = (2 * x) * 2 ^ nat (51 - ?E)" by simp
    also have "\<dots> = real_of_int (k * 2 ^ nat (51 - ?E))" using k by simp
    finally show ?thesis by blast
  qed
  then obtain m where m: "x * 2 ^ nat (52 - ?E) = real_of_int m" by blast
  have xm: "x = real_of_int m / 2 ^ nat (52 - ?E)" using m by (simp add: field_simps)
  have a: "rnd64 x = x"
    using x by (simp add: rnd64_def Let_def mx u m round_even_int xm[symmetric])
  have rm: "round_even (- real_of_int m) = - m" using round_even_int[of "- m"] by simp
  have b': "rnd64 (- x) = - x"
    using x by (simp add: rnd64_def Let_def mx u m rm xm[symmetric])
  from a b' show ?thesis ..
qed

lemma rnd64_exact:
  assumes "2 * x \<in> \<int>" "\<bar>x\<bar> \<le> 4503599627370496"
  shows "rnd64 x = x"
proof -
  have p: "(2::real) ^ 52 = 4503599627370496" by simp
  consider "x = 0" | "0 < x" | "x < 0" by linarith
  then show ?thesis
  proof cases
    case 1
    then show ?thesis by (simp add: rnd64_def)
  next
    case 2
    then show ?thesis using rnd64_exact_pos[of x] assms p by simp
  next
    case 3
    have "2 * (- x) \<in> \<int>" using assms(1) Ints_minus[of "2 * x"] by simp
    then show ?thesis using rnd64_exact_pos[of "- x"] 3 assms(2) p by simp
  qed
qed

lemma round_f64_exact:
  assumes "2 * x \<in> \<int>" "\<bar>x\<bar> \<le> 4503599627370496"
  shows "round_f64 x = Fin x"
proof -
  have "\<bar>x\<bar> < 2 ^ 1024"
  proof -
    have "(4503599627370496::real) = 2 ^ 52" by simp
    also have "\<dots> < 2 ^ 1024" by simp
    finally show ?thesis using assms(2) by simp
  qed
  then show ?thesis by (simp add: round_f64_def Let_def rnd64_exact[OF assms])
qed

text \<open>
  The indices that \<open>_load_run_speed\<close> visits are those of the samples whose
  successor is further than the threshold away.
\<close>

lemma fl_test_abs: "(fl_lt d (- t) \<or> fl_gt d t) = fl_gt (fl_abs d) t"
  by (cases d) auto

lemma out_idx_filter:
  "out_idx thr (map Fin xs) = filter (\<lambda>i. outl thr (xs ! Suc i) (xs ! i)) [0..<length xs - 1]"
  unfolding out_idx_def Let_def np_diff_def
  by (rule filter_cong) (auto simp: outl_def fl_test_abs)

lemma run_step_skip: "int idx \<le> at_idx st \<Longrightarrow> run_step thr idx st = Inr st"
  by (simp add: run_step_def)

lemma run_loop_skip: "\<forall>i\<in>set idxs. int i \<le> at_idx st \<Longrightarrow> run_loop thr idxs st = Inr st"
  by (induction idxs) (simp_all add: run_step_skip)

lemma run_loop_append:
  "run_loop thr (A @ B) st =
     (case run_loop thr A st of Inl e \<Rightarrow> Inl e | Inr st' \<Rightarrow> run_loop thr B st')"
  by (induction A arbitrary: st) (auto split: sum.splits)

lemma nan_while_run:
  assumes "\<forall>y\<in>set os. outl thr y g" "\<not> outl thr b g" "length A = Suc idx"
  shows "nan_while thr (Fin g) (A @ map Fin (os @ b # post)) idx
     = Inr (A @ replicate (length os) NaN @ Fin b # map Fin post, idx + length os)"
  using assms
proof (induction os arbitrary: A idx)
  case Nil
  then show ?case
    by (subst nan_while.simps) (simp add: nth_append outl_def)
next
  case (Cons y os)
  have o: "outl thr y g" using Cons.prems(1) by simp
  have upd: "(A @ map Fin ((y # os) @ b # post))[Suc idx := NaN]
      = (A @ [NaN]) @ map Fin (os @ b # post)"
    using Cons.prems(3) by (simp add: list_update_append)
  have "nan_while thr (Fin g) (A @ map Fin ((y # os) @ b # post)) idx
      = nan_while thr (Fin g) ((A @ map Fin ((y # os) @ b # post))[Suc idx := NaN]) (Suc idx)"
    using o Cons.prems(3)
    by (subst nan_while.simps) (simp add: nth_append outl_def)
  also have "\<dots> = nan_while thr (Fin g) ((A @ [NaN]) @ map Fin (os @ b # post)) (Suc idx)"
    by (simp only: upd)
  also have "\<dots> = Inr ((A @ [NaN]) @ replicate (length os) NaN @ Fin b # map Fin post,
      Suc idx + length os)"
    using Cons.prems by (intro Cons.IH) simp_all
  finally show ?case by (simp add: replicate_app_Cons_same)
qed

lemma fill_slice_mid:
  "fill_slice (A @ B @ C) (length A) (length A + length B) v = A @ replicate (length B) v @ C"
  by (rule nth_equalityI) (auto simp: fill_slice_def nth_append)

text \<open>
  One visit of the loop body at a run of outliers that follows the good sample at
  \<open>idx\<close>: the run becomes NaN in \<open>run\<close> and the mean of its two good neighbours in
  \<open>run_interp\<close>.
\<close>

lemma run_step_run:
  assumes i: "0 < idx" and a: "at_idx st < int idx"
    and r: "run st = pre_r @ Fin g # map Fin (os @ b # post)" and lr: "length pre_r = idx"
    and ri: "run_interp st = pre_i @ Fin g # map Fin (os @ b # post)" and li: "length pre_i = idx"
    and o: "\<forall>y\<in>set os. outl thr y g" and b: "\<not> outl thr b g"
  shows "\<exists>lg. run_step thr idx st =
     Inr \<lparr>run = pre_r @ Fin g # replicate (length os) NaN @ Fin b # map Fin post,
          run_interp = pre_i @ Fin g # replicate (length os) (fl_mean2 (Fin g) (Fin b))
                         @ Fin b # map Fin post,
          at_idx = int (idx + length os), run_log = lg\<rparr>"
proof -
  have len: "idx < length (run st)" using r lr by simp
  have cv: "run st ! idx = Fin g" using r lr by (simp add: nth_append)
  have nw: "nan_while thr (Fin g) (run st) idx
      = Inr (pre_r @ Fin g # replicate (length os) NaN @ Fin b # map Fin post,
             idx + length os)"
    using nan_while_run[OF o b, of "pre_r @ [Fin g]" idx post] lr r by simp
  have nx: "(pre_r @ Fin g # replicate (length os) NaN @ Fin b # map Fin post)
       ! Suc (idx + length os) = Fin b"
    using lr nth_append_length[of "pre_r @ Fin g # replicate (length os) NaN" "Fin b"
        "map Fin post"]
    by simp
  have fs: "fill_slice (run_interp st) (Suc idx) (Suc (idx + length os)) v
      = pre_i @ Fin g # replicate (length os) v @ Fin b # map Fin post" for v
    using fill_slice_mid[of "pre_i @ [Fin g]" "map Fin os" "Fin b # map Fin post" v] li ri
    by simp
  have n1: "nat (int idx + 1) = Suc idx" by simp
  show ?thesis
    unfolding run_step_def Let_def
    using i a len by (simp add: cv nw nx fs n1)
qed

lemma run_labels_run:
  "\<forall>y\<in>set os. outl thr y g \<Longrightarrow> \<not> outl thr b g \<Longrightarrow>
   run_labels thr g (os @ b # post) = replicate (length os) True @ False # run_labels thr b post"
  by (induction os) auto

lemma excl_run:
  "\<forall>y\<in>set os. outl thr y g \<Longrightarrow> \<not> outl thr b g \<Longrightarrow>
   excl thr g (os @ b # post) = replicate (length os) NaN @ Fin b # excl thr b post"
  by (induction os) auto

lemma next_good_run:
  "\<forall>y\<in>set os. outl thr y g \<Longrightarrow> \<not> outl thr b g \<Longrightarrow>
   next_good thr g (os @ b # post) = Fin b"
  by (induction os) auto

lemma interp_run:
  "\<forall>y\<in>set os. outl thr y g \<Longrightarrow> \<not> outl thr b g \<Longrightarrow>
   interp thr g (os @ b # post)
     = replicate (length os) (fl_mean2 (Fin g) (Fin b)) @ Fin b # interp thr b post"
proof (induction os)
  case Nil
  then show ?case by simp
next
  case (Cons y os)
  then have "next_good thr g (os @ b # post) = Fin b" by (intro next_good_run) auto
  with Cons show ?case by simp
qed

lemma all_outliers_labels:
  "\<forall>y\<in>set xs. outl thr y g \<Longrightarrow> run_labels thr g xs = replicate (length xs) True"
  by (induction xs) auto

lemma closed_split:
  assumes "rest \<noteq> []" "run_labels thr g rest = [] \<or> \<not> last (run_labels thr g rest)"
  shows "\<exists>os b post. rest = os @ b # post \<and> (\<forall>y\<in>set os. outl thr y g) \<and> \<not> outl thr b g"
proof (cases "\<forall>y\<in>set rest. outl thr y g")
  case True
  then have "run_labels thr g rest = replicate (length rest) True" by (rule all_outliers_labels)
  moreover have "length rest \<noteq> 0" using assms(1) by simp
  ultimately have "run_labels thr g rest \<noteq> [] \<and> last (run_labels thr g rest)"
    by (simp add: last_replicate)
  with assms(2) show ?thesis by blast
next
  case False
  then obtain os b post where "rest = os @ b # post" "\<not> outl thr b g"
    "\<forall>y\<in>set os. outl thr y g"
    using split_list_first_prop[of rest "\<lambda>y. \<not> outl thr y g"] by auto
  then show ?thesis by blast
qed

text \<open>
  The loop invariant: once the samples before a good sample \<open>g\<close> are done, the
  loop over the remaining indices leaves \<open>excl\<close> and \<open>interp\<close> of the remaining
  samples behind, provided the recording does not end inside a run of outliers.
\<close>

lemma run_loop_scan:
  assumes "xs = ps @ g # rest"
    and "run st = pre_r @ Fin g # map Fin rest" and "length pre_r = length ps"
    and "run_interp st = pre_i @ Fin g # map Fin rest" and "length pre_i = length ps"
    and "at_idx st < int (length ps)"
    and "ps = [] \<longrightarrow> rest = [] \<or> \<not> outl thr (hd rest) g"
    and "run_labels thr g rest = [] \<or> \<not> last (run_labels thr g rest)"
  shows "\<exists>st'. run_loop thr (filter (\<lambda>i. outl thr (xs ! Suc i) (xs ! i))
                    [length ps..<length xs - 1]) st = Inr st'
     \<and> run st' = pre_r @ Fin g # excl thr g rest
     \<and> run_interp st' = pre_i @ Fin g # interp thr g rest"
  using assms
proof (induction "length rest" arbitrary: ps g rest st pre_r pre_i rule: less_induct)
  case less
  let ?flg = "\<lambda>i. outl thr (xs ! Suc i) (xs ! i)"
  show ?case
  proof (cases rest)
    case Nil
    with less.prems show ?thesis by simp
  next
    case (Cons x rest')
    have lx: "length xs - 1 = Suc (length ps + length rest')"
      using less.prems(1) Cons by simp
    have up: "[length ps..<length xs - 1] = length ps # [Suc (length ps)..<length xs - 1]"
      by (rule upt_conv_Cons) (use lx in linarith)
    have g: "xs ! length ps = g" using less.prems(1) by simp
    have x: "xs ! Suc (length ps) = x"
      using less.prems(1) Cons nth_append_length[of "ps @ [g]" x rest'] by simp
    show ?thesis
    proof (cases "outl thr x g")
      case False
      have f: "filter ?flg [length ps..<length xs - 1] = filter ?flg [length (ps @ [g])..<length xs - 1]"
        unfolding up using False g x by simp
      have "\<exists>st'. run_loop thr (filter ?flg [length (ps @ [g])..<length xs - 1]) st = Inr st'
         \<and> run st' = (pre_r @ [Fin g]) @ Fin x # excl thr x rest'
         \<and> run_interp st' = (pre_i @ [Fin g]) @ Fin x # interp thr x rest'"
      proof (rule less.hyps)
        show "length rest' < length rest" using Cons by simp
        show "xs = (ps @ [g]) @ x # rest'" using less.prems(1) Cons by simp
        show "run st = (pre_r @ [Fin g]) @ Fin x # map Fin rest'"
          using less.prems(2) Cons by simp
        show "length (pre_r @ [Fin g]) = length (ps @ [g])" using less.prems(3) by simp
        show "run_interp st = (pre_i @ [Fin g]) @ Fin x # map Fin rest'"
          using less.prems(4) Cons by simp
        show "length (pre_i @ [Fin g]) = length (ps @ [g])" using less.prems(5) by simp
        show "at_idx st < int (length (ps @ [g]))" using less.prems(6) by simp
        show "ps @ [g] = [] \<longrightarrow> rest' = [] \<or> \<not> outl thr (hd rest') x" by simp
        show "run_labels thr x rest' = [] \<or> \<not> last (run_labels thr x rest')"
          using less.prems(8) Cons False by (auto split: if_splits)
      qed
      with f False Cons show ?thesis by simp
    next
      case True
      have psne: "ps \<noteq> []" using less.prems(7) Cons True by auto
      have "rest \<noteq> []" using Cons by simp
      from closed_split[OF this less.prems(8)] obtain os b post where
        rest: "rest = os @ b # post" and o: "\<forall>y\<in>set os. outl thr y g" and b: "\<not> outl thr b g"
        by blast
      have osne: "os \<noteq> []" using rest Cons True b by (cases os) auto
      let ?idx = "length ps"
      let ?pr = "pre_r @ Fin g # replicate (length os) NaN"
      let ?pi = "pre_i @ Fin g # replicate (length os) (fl_mean2 (Fin g) (Fin b))"
      let ?ps = "ps @ g # os"
      from run_step_run[of ?idx st pre_r g os b post pre_i thr] psne less.prems rest o b
      obtain lg where rs: "run_step thr ?idx st =
          Inr \<lparr>run = ?pr @ Fin b # map Fin post, run_interp = ?pi @ Fin b # map Fin post,
               at_idx = int (?idx + length os), run_log = lg\<rparr>"
        by auto
      let ?st1 = "\<lparr>run = ?pr @ Fin b # map Fin post, run_interp = ?pi @ Fin b # map Fin post,
               at_idx = int (?idx + length os), run_log = lg\<rparr>"
      have lx2: "length xs - 1 = length ?ps + length post"
        using less.prems(1) rest by simp
      have sp: "[Suc ?idx..<length xs - 1] = [Suc ?idx..<length ?ps] @ [length ?ps..<length xs - 1]"
        unfolding lx2 using upt_add_eq_append[of "Suc ?idx" "length ?ps" "length post"] by simp
      have skip: "run_loop thr (filter ?flg [Suc ?idx..<length ?ps]) ?st1 = Inr ?st1"
        by (rule run_loop_skip) auto
      have ih: "\<exists>st'. run_loop thr (filter ?flg [length ?ps..<length xs - 1]) ?st1 = Inr st'
         \<and> run st' = ?pr @ Fin b # excl thr b post
         \<and> run_interp st' = ?pi @ Fin b # interp thr b post"
      proof (rule less.hyps)
        show "length post < length rest" using rest by simp
        show "xs = ?ps @ b # post" using less.prems(1) rest by simp
        show "run ?st1 = ?pr @ Fin b # map Fin post" by simp
        show "length ?pr = length ?ps" using less.prems(3) by simp
        show "run_interp ?st1 = ?pi @ Fin b # map Fin post" by simp
        show "length ?pi = length ?ps" using less.prems(5) by simp
        show "at_idx ?st1 < int (length ?ps)" by simp
        show "?ps = [] \<longrightarrow> post = [] \<or> \<not> outl thr (hd post) b" by simp
        show "run_labels thr b post = [] \<or> \<not> last (run_labels thr b post)"
          using less.prems(8) unfolding rest run_labels_run[OF o b] by (auto split: if_splits)
      qed
      have fl: "filter ?flg [length ps..<length xs - 1]
          = ?idx # (filter ?flg [Suc ?idx..<length ?ps] @ filter ?flg [length ?ps..<length xs - 1])"
        using True g x up sp by simp
      have "run_loop thr (filter ?flg [length ps..<length xs - 1]) st
          = run_loop thr (filter ?flg [length ?ps..<length xs - 1]) ?st1"
        unfolding fl by (simp only: run_loop.simps rs sum.case run_loop_append skip)
      with ih show ?thesis
        unfolding rest excl_run[OF o b] interp_run[OF o b] by simp
    qed
  qed
qed

lemma length_run_labels [simp]: "length (run_labels thr g xs) = length xs"
  by (induction xs arbitrary: g) auto

lemma length_excl [simp]: "length (excl thr g xs) = length xs"
  by (induction xs arbitrary: g) auto

lemma length_interp [simp]: "length (interp thr g xs) = length xs"
  by (induction xs arbitrary: g) auto

lemma excl_nth:
  "p < length xs \<Longrightarrow>
   excl thr g xs ! p = (if run_labels thr g xs ! p then NaN else Fin (xs ! p))"
  by (induction xs arbitrary: g p) (auto simp: nth_Cons split: nat.splits)

lemma interp_good_nth:
  "p < length xs \<Longrightarrow> \<not> run_labels thr g xs ! p \<Longrightarrow> interp thr g xs ! p = Fin (xs ! p)"
  by (induction xs arbitrary: g p) (auto simp: nth_Cons split: nat.splits if_splits)

lemma next_good_hd:
  "xs \<noteq> [] \<Longrightarrow> \<not> run_labels thr g xs ! 0 \<Longrightarrow> next_good thr g xs = Fin (xs ! 0)"
  by (cases xs) (auto split: if_splits)

lemma interp_single_nth:
  assumes "Suc p < length xs" "run_labels thr g xs ! p" "\<not> run_labels thr g xs ! Suc p"
    "p = 0 \<or> \<not> run_labels thr g xs ! (p - 1)"
  shows "interp thr g xs ! p = fl_mean2 (Fin (if p = 0 then g else xs ! (p - 1))) (Fin (xs ! Suc p))"
  using assms
proof (induction xs arbitrary: g p)
  case Nil
  then show ?case by simp
next
  case (Cons x xs)
  show ?case
  proof (cases p)
    case 0
    with Cons.prems have out: "outl thr x g" by (auto split: if_splits)
    with Cons.prems 0 have "xs \<noteq> []" "\<not> run_labels thr g xs ! 0" by auto
    then have "next_good thr g xs = Fin (xs ! 0)" by (rule next_good_hd)
    with out 0 show ?thesis by simp
  next
    case (Suc p')
    show ?thesis
    proof (cases "outl thr x g")
      case True
      with Cons.prems Suc have p': "0 < p'" by (cases p') auto
      with Cons.prems Suc True
      have "interp thr g xs ! p' = fl_mean2 (Fin (if p' = 0 then g else xs ! (p' - 1))) (Fin (xs ! Suc p'))"
        by (intro Cons.IH) (auto simp: nth_Cons split: nat.splits)
      with True Suc p' show ?thesis by (auto simp: nth_Cons split: nat.splits)
    next
      case False
      with Cons.prems Suc
      have "interp thr x xs ! p' = fl_mean2 (Fin (if p' = 0 then x else xs ! (p' - 1))) (Fin (xs ! Suc p'))"
        by (intro Cons.IH) (auto simp: nth_Cons split: nat.splits)
      with False Suc show ?thesis by (auto simp: nth_Cons split: nat.splits)
    qed
  qed
qed

lemma load_run_speed_closed_form:
  assumes "xs = g # rest" "rest = [] \<or> \<not> outl thr (hd rest) g"
    "run_labels thr g rest = [] \<or> \<not> last (run_labels thr g rest)"
  shows "\<exists>st. load_run_speed thr (map Fin xs) = Inr st
     \<and> run st = Fin g # excl thr g rest \<and> run_interp st = Fin g # interp thr g rest"
proof -
  let ?st0 = "\<lparr>run = map Fin xs, run_interp = map Fin xs, at_idx = - 1,
      run_log = (if length (out_idx thr (map Fin xs)) > 0
                 then [RunValuesReplaced (length (out_idx thr (map Fin xs)))] else [])\<rparr>"
  have "\<exists>st'. run_loop thr (filter (\<lambda>i. outl thr (xs ! Suc i) (xs ! i))
                    [length ([]::real list)..<length xs - 1]) ?st0 = Inr st'
     \<and> run st' = [] @ Fin g # excl thr g rest
     \<and> run_interp st' = [] @ Fin g # interp thr g rest"
    by (rule run_loop_scan) (use assms in simp_all)
  then show ?thesis
    unfolding load_run_speed_def Let_def out_idx_filter by simp
qed

text \<open>
  A run that starts at the second sample: the loop body compares with 0 instead
  of the first sample.
\<close>

lemma run_step_first:
  assumes a: "at_idx st < 0"
    and r: "run st = Fin x0 # map Fin (os @ b # post)"
    and ri: "run_interp st = Fin x0 # map Fin (os @ b # post)"
    and x0: "\<not> \<bar>x0\<bar> > thr"
    and o: "\<forall>y\<in>set os. outl thr y 0" and b: "\<not> outl thr b 0"
  shows "\<exists>lg. run_step thr 0 st =
     Inr \<lparr>run = Fin x0 # replicate (length os) NaN @ Fin b # map Fin post,
          run_interp = Fin x0 # replicate (length os) (fl_mean2 (Fin 0) (Fin b)) @ Fin b # map Fin post,
          at_idx = int (length os), run_log = lg\<rparr>"
proof -
  have nw: "nan_while thr (Fin 0) (run st) 0
      = Inr (Fin x0 # replicate (length os) NaN @ Fin b # map Fin post, length os)"
    using nan_while_run[OF o b, of "[Fin x0]" 0 post] r by simp
  have nx: "(replicate (length os) NaN @ Fin b # map Fin post) ! length os = Fin b"
    using nth_append_length[of "replicate (length os) NaN" "Fin b" "map Fin post"]
    by simp
  have fs: "fill_slice (run_interp st) (Suc 0) (Suc (length os)) v
      = Fin x0 # replicate (length os) v @ Fin b # map Fin post" for v
    using fill_slice_mid[of "[Fin x0]" "map Fin os" "Fin b # map Fin post" v] ri
    by simp
  have len: "0 < length (run st)" and cv: "run st ! 0 = Fin x0" using r by simp_all
  show ?thesis
    unfolding run_step_def Let_def
    using a x0 len by (simp add: cv nw nx fs)
qed

lemma load_run_speed_first_run:
  assumes xs: "xs = x0 # os @ b # post" and osne: "os \<noteq> []"
    and flg: "outl thr (hd os) x0" and x0: "\<not> \<bar>x0\<bar> > thr"
    and o: "\<forall>y\<in>set os. outl thr y 0" and b: "\<not> outl thr b 0"
    and cl: "run_labels thr b post = [] \<or> \<not> last (run_labels thr b post)"
  shows "\<exists>st. load_run_speed thr (map Fin xs) = Inr st
     \<and> run st = Fin x0 # replicate (length os) NaN @ Fin b # excl thr b post
     \<and> run_interp st = Fin x0 # replicate (length os) (fl_mean2 (Fin 0) (Fin b)) @ Fin b # interp thr b post"
proof -
  let ?flg = "\<lambda>i. outl thr (xs ! Suc i) (xs ! i)"
  let ?st0 = "\<lparr>run = map Fin xs, run_interp = map Fin xs, at_idx = - 1,
      run_log = (if length (out_idx thr (map Fin xs)) > 0
                 then [RunValuesReplaced (length (out_idx thr (map Fin xs)))] else [])\<rparr>"
  let ?ps = "x0 # os"
  let ?pr = "Fin x0 # replicate (length os) NaN"
  let ?pi = "Fin x0 # replicate (length os) (fl_mean2 (Fin 0) (Fin b))"
  from run_step_first[of ?st0 x0 os b post thr] xs x0 o b
  obtain lg where rs: "run_step thr 0 ?st0 =
      Inr \<lparr>run = ?pr @ Fin b # map Fin post, run_interp = ?pi @ Fin b # map Fin post,
           at_idx = int (length os), run_log = lg\<rparr>"
    by auto
  let ?st1 = "\<lparr>run = ?pr @ Fin b # map Fin post, run_interp = ?pi @ Fin b # map Fin post,
           at_idx = int (length os), run_log = lg\<rparr>"
  have lx: "length xs - 1 = length ?ps + length post" using xs by simp
  have up: "[0..<length xs - 1] = 0 # [Suc 0..<length xs - 1]"
    by (rule upt_conv_Cons) (simp add: xs)
  have sp: "[Suc 0..<length xs - 1] = [Suc 0..<length ?ps] @ [length ?ps..<length xs - 1]"
    unfolding lx using upt_add_eq_append[of "Suc 0" "length ?ps" "length post"] by simp
  have f0: "?flg 0" using xs osne flg by (cases os) auto
  have fl: "filter ?flg [0..<length xs - 1]
      = 0 # (filter ?flg [Suc 0..<length ?ps] @ filter ?flg [length ?ps..<length xs - 1])"
    using f0 up sp by simp
  have skip: "run_loop thr (filter ?flg [Suc 0..<length ?ps]) ?st1 = Inr ?st1"
    by (rule run_loop_skip) auto
  have sc: "\<exists>st'. run_loop thr (filter ?flg [length ?ps..<length xs - 1]) ?st1 = Inr st'
     \<and> run st' = ?pr @ Fin b # excl thr b post
     \<and> run_interp st' = ?pi @ Fin b # interp thr b post"
  proof (rule run_loop_scan)
    show "xs = ?ps @ b # post" using xs by simp
    show "run ?st1 = ?pr @ Fin b # map Fin post" by simp
    show "length ?pr = length ?ps" by simp
    show "run_interp ?st1 = ?pi @ Fin b # map Fin post" by simp
    show "length ?pi = length ?ps" by simp
    show "at_idx ?st1 < int (length ?ps)" by simp
    show "?ps = [] \<longrightarrow> post = [] \<or> \<not> outl thr (hd post) b" by simp
    show "run_labels thr b post = [] \<or> \<not> last (run_labels thr b post)" by (rule cl)
  qed
  have "run_loop thr (filter ?flg [0..<length xs - 1]) ?st0
      = run_loop thr (filter ?flg [length ?ps..<length xs - 1]) ?st1"
    unfolding fl by (simp only: run_loop.simps rs sum.case run_loop_append skip)
  with sc show ?thesis
    unfolding load_run_speed_def Let_def out_idx_filter by simp
qed

lemma outlier_labels_Cons: "outlier_labels thr (g # rest) = False # run_labels thr g rest"
  by (simp add: outlier_labels_def)

lemma lin_interp_mid: "lin_interp a b 1 1 = (a + b) / 2"
  by (simp add: lin_interp_def field_simps)

text \<open>The load of a recording of whole numbers, evaluated step by step.\<close>

lemmas run_eval = load_run_speed_def out_idx_def np_diff_def Let_def run_step_def nan_while.simps
  fill_slice_def fl_mean2_def round_f64_exact eval_nat_numeral

lemma run_speed_scenario:
  "load_run_speed 50 (map Fin [0, 1, 2, 200, 3, 4])
     = Inr \<lparr>run = [Fin 0, Fin 1, Fin 2, NaN, Fin 3, Fin 4],
            run_interp = [Fin 0, Fin 1, Fin 2, Fin (5 / 2), Fin 3, Fin 4],
            at_idx = 3, run_log = [RunValuesReplaced 2]\<rparr>"
  by (simp add: run_eval)

lemma run_speed_first_good:
  "load_run_speed 50 (map Fin [10, 200, 12])
     = Inr \<lparr>run = [Fin 10, NaN, Fin 12], run_interp = [Fin 10, Fin 6, Fin 12],
            at_idx = 1, run_log = [RunValuesReplaced 2]\<rparr>"
  by (simp add: run_eval)

lemma run_speed_long_run:
  "load_run_speed 50 (map Fin [0, 1, 2, 200, 200, 3, 4])
     = Inr \<lparr>run = [Fin 0, Fin 1, Fin 2, NaN, NaN, Fin 3, Fin 4],
            run_interp = [Fin 0, Fin 1, Fin 2, Fin (5 / 2), Fin (5 / 2), Fin 3, Fin 4],
            at_idx = 4, run_log = [RunValuesReplaced 2]\<rparr>"
  by (simp add: run_eval)

lemma fl_mean2_exact:
  assumes "a + b \<in> \<int>" "\<bar>a + b\<bar> \<le> 4503599627370496"
  shows "fl_mean2 (Fin a) (Fin b) = Fin ((a + b) / 2)"
proof -
  have "2 * (a + b) \<in> \<int>" using assms(1) by (intro Ints_mult) simp_all
  then have 1: "round_f64 (a + b) = Fin (a + b)"
    using assms(2) by (intro round_f64_exact)
  have "2 * ((a + b) / 2) = a + b" by simp
  then have "2 * ((a + b) / 2) \<in> \<int>" using assms(1) by (simp only:)
  moreover have "\<bar>(a + b) / 2\<bar> \<le> 4503599627370496" using assms(2) by simp
  ultimately have 2: "round_f64 ((a + b) / 2) = Fin ((a + b) / 2)"
    by (rule round_f64_exact)
  show ?thesis by (simp add: fl_mean2_def 1 2)
qed

lemma run_labels_char:
  assumes "q < p" "p < Suc (length rest)"
    "\<not> (False # run_labels thr g rest) ! q"
    "\<forall>j. q < j \<and> j < p \<longrightarrow> (False # run_labels thr g rest) ! j"
  shows "(False # run_labels thr g rest) ! p = outl thr ((g # rest) ! p) ((g # rest) ! q)"
  using assms
proof (induction rest arbitrary: g p q)
  case Nil
  then show ?case by simp
next
  case (Cons x r)
  show ?case
  proof (cases "outl thr x g")
    case True
    let ?L1 = "False # run_labels thr g r"
    have L: "(False # run_labels thr g (x # r)) = False # True # run_labels thr g r"
      using True by simp
    have q1: "q \<noteq> 1" using Cons.prems(3) unfolding L by auto
    show ?thesis
    proof (cases "p = 1")
      case True
      with Cons.prems(1) have "q = 0" by simp
      with \<open>p = 1\<close> \<open>outl thr x g\<close> show ?thesis unfolding L by simp
    next
      case False
      with Cons.prems(1) have p2: "2 \<le> p" by simp
      then obtain p' where p': "p = Suc p'" "1 \<le> p'" by (cases p) auto
      show ?thesis
      proof (cases q)
        case 0
        have "?L1 ! p' = outl thr ((g # r) ! p') ((g # r) ! 0)"
        proof (rule Cons.IH)
          show "0 < p'" using p' by simp
          show "p' < Suc (length r)" using Cons.prems(2) p' by simp
          show "\<not> ?L1 ! 0" by simp
          show "\<forall>j. 0 < j \<and> j < p' \<longrightarrow> ?L1 ! j"
          proof (intro allI impI)
            fix j assume j: "0 < j \<and> j < p'"
            then have "(False # True # run_labels thr g r) ! Suc j"
              using Cons.prems(4) 0 p' unfolding L by auto
            with j show "?L1 ! j" by (cases j) auto
          qed
        qed
        with 0 p' show ?thesis unfolding L by (cases p') auto
      next
        case (Suc q')
        with q1 obtain q'' where q'': "q' = Suc q''" by (cases q') auto
        have "?L1 ! p' = outl thr ((g # r) ! p') ((g # r) ! q')"
        proof (rule Cons.IH)
          show "q' < p'" using Cons.prems(1) Suc p' by simp
          show "p' < Suc (length r)" using Cons.prems(2) p' by simp
          show "\<not> ?L1 ! q'" using Cons.prems(3) Suc q'' unfolding L by simp
          show "\<forall>j. q' < j \<and> j < p' \<longrightarrow> ?L1 ! j"
          proof (intro allI impI)
            fix j assume j: "q' < j \<and> j < p'"
            then have "(False # True # run_labels thr g r) ! Suc j"
              using Cons.prems(4) Suc p' unfolding L by auto
            with j q'' show "?L1 ! j" by (cases j) auto
          qed
        qed
        with Suc q'' p' Cons.prems(1) show ?thesis unfolding L by (cases p') auto
      qed
    qed
  next
    case False
    let ?L1 = "False # run_labels thr x r"
    have L: "(False # run_labels thr g (x # r)) = False # False # run_labels thr x r"
      using False by simp
    show ?thesis
    proof (cases q)
      case 0
      have "p = 1"
      proof (rule ccontr)
        assume "p \<noteq> 1"
        with Cons.prems(1) 0 have "0 < (1::nat) \<and> 1 < p" by simp
        with Cons.prems(4) 0 have "(False # run_labels thr g (x # r)) ! 1" by blast
        then show False unfolding L by simp
      qed
      with 0 False show ?thesis unfolding L by simp
    next
      case (Suc q')
      with Cons.prems(1) obtain p' where p': "p = Suc p'" by (cases p) auto
      have "?L1 ! p' = outl thr ((x # r) ! p') ((x # r) ! q')"
      proof (rule Cons.IH)
        show "q' < p'" using Cons.prems(1) Suc p' by simp
        show "p' < Suc (length r)" using Cons.prems(2) p' by simp
        show "\<not> ?L1 ! q'" using Cons.prems(3) Suc unfolding L by simp
        show "\<forall>j. q' < j \<and> j < p' \<longrightarrow> ?L1 ! j"
        proof (intro allI impI)
          fix j assume j: "q' < j \<and> j < p'"
          then have "(False # False # run_labels thr x r) ! Suc j"
            using Cons.prems(4) Suc p' unfolding L by auto
          then show "?L1 ! j" by simp
        qed
      qed
      with Suc p' show ?thesis unfolding L by simp
    qed
  qed
qed

lemma outlier_labels_char:
  assumes "q < p" "p < length xs" "\<not> outlier_labels thr xs ! q"
    "\<forall>j. q < j \<and> j < p \<longrightarrow> outlier_labels thr xs ! j"
  shows "outlier_labels thr xs ! p = outl thr (xs ! p) (xs ! q)"
proof (cases xs)
  case Nil
  with assms show ?thesis by simp
next
  case (Cons g rest)
  show ?thesis
    using run_labels_char[of q p rest thr g] assms
    unfolding Cons outlier_labels_Cons by simp
qed

lemma pow_52: "(2::real) ^ 52 = 4503599627370496"
  by simp

lemma load_run_speed_labels:
  assumes len: "2 \<le> length xs" and first: "\<not> outl thr (xs ! 1) (xs ! 0)"
    and cl: "\<not> last (outlier_labels thr xs)"
  shows "\<exists>st. load_run_speed thr (map Fin xs) = Inr st
     \<and> length (run st) = length xs \<and> length (run_interp st) = length xs
     \<and> (\<forall>p<length xs. run st ! p = (if outlier_labels thr xs ! p then NaN else Fin (xs ! p)))
     \<and> (\<forall>p<length xs. \<not> outlier_labels thr xs ! p \<longrightarrow> run_interp st ! p = Fin (xs ! p))
     \<and> (\<forall>p. 0 < p \<and> Suc p < length xs \<and> \<not> outlier_labels thr xs ! (p - 1)
              \<and> outlier_labels thr xs ! p \<and> \<not> outlier_labels thr xs ! Suc p \<longrightarrow>
           run_interp st ! p = fl_mean2 (Fin (xs ! (p - 1))) (Fin (xs ! Suc p)))"
proof -
  from len have "xs \<noteq> []" by auto
  then obtain g rest where xs: "xs = g # rest" by (cases xs) auto
  have rne: "rest \<noteq> []" using len xs by auto
  have h: "rest = [] \<or> \<not> outl thr (hd rest) g"
    using first xs rne by (cases rest) auto
  have c: "run_labels thr g rest = [] \<or> \<not> last (run_labels thr g rest)"
    using cl xs by (auto simp: outlier_labels_Cons split: if_splits)
  from load_run_speed_closed_form[OF xs h c] obtain st where
    st: "load_run_speed thr (map Fin xs) = Inr st"
    and r: "run st = Fin g # excl thr g rest"
    and ri: "run_interp st = Fin g # interp thr g rest"
    by blast
  have 1: "length (run st) = length xs" "length (run_interp st) = length xs"
    using r ri xs by simp_all
  have 2: "\<forall>p<length xs.
      run st ! p = (if outlier_labels thr xs ! p then NaN else Fin (xs ! p))"
    using r xs excl_nth[of _ rest thr g]
    by (auto simp: outlier_labels_Cons nth_Cons split: nat.splits)
  have 3: "\<forall>p<length xs. \<not> outlier_labels thr xs ! p \<longrightarrow> run_interp st ! p = Fin (xs ! p)"
    using ri xs interp_good_nth[of _ rest thr g]
    by (auto simp: outlier_labels_Cons nth_Cons split: nat.splits)
  have 4: "\<forall>p. 0 < p \<and> Suc p < length xs \<and> \<not> outlier_labels thr xs ! (p - 1)
                  \<and> outlier_labels thr xs ! p \<and> \<not> outlier_labels thr xs ! Suc p \<longrightarrow>
               run_interp st ! p = fl_mean2 (Fin (xs ! (p - 1))) (Fin (xs ! Suc p))"
  proof (intro allI impI)
    fix p
    assume a: "0 < p \<and> Suc p < length xs \<and> \<not> outlier_labels thr xs ! (p - 1)
                  \<and> outlier_labels thr xs ! p \<and> \<not> outlier_labels thr xs ! Suc p"
    then obtain q where p: "p = Suc q" by (cases p) auto
    have q1: "Suc q < length rest" using a p xs by simp
    have q2: "run_labels thr g rest ! q" using a p xs by (simp add: outlier_labels_Cons)
    have q3: "\<not> run_labels thr g rest ! Suc q" using a p xs by (simp add: outlier_labels_Cons)
    have q4: "q = 0 \<or> \<not> run_labels thr g rest ! (q - 1)"
      using a p xs by (cases q) (simp_all add: outlier_labels_Cons)
    have "interp thr g rest ! q
        = fl_mean2 (Fin (if q = 0 then g else rest ! (q - 1))) (Fin (rest ! Suc q))"
      by (rule interp_single_nth[OF q1 q2 q3 q4])
    moreover have "(if q = 0 then g else rest ! (q - 1)) = xs ! (p - 1)"
      using p xs by (cases q) simp_all
    ultimately show "run_interp st ! p = fl_mean2 (Fin (xs ! (p - 1))) (Fin (xs ! Suc p))"
      using ri p xs by simp
  qed
  from st 1 2 3 4 show ?thesis by blast
qed

lemma ends_in_run_raises:
  "load_run_speed 50 (map Fin [0, 1, 200]) = Inl IndexError"
  by (simp add: run_eval)

text \<open>
  Claim C6 (as amended).  An outlier is a sample further than the threshold, by
  the float test \<open>np.absolute(x - g) > thr\<close>, from the last sample \<open>g\<close> before it
  that is not an outlier; the first sample is none.  Take a recording of at least
  two samples whose second sample is no outlier and whose last sample is none
  either.  Then \<open>_load_run_speed\<close> returns; \<open>run\<close> holds NaN at every outlier and
  the recorded value elsewhere; \<open>run_interp\<close> holds the recorded value at every
  good sample, and at a run of one outlier between two good samples the float
  mean \<open>np.mean\<close> of these two, which is the linear interpolation between them
  when their sum is an integer of at most 53 bits (no rounding then).  When the
  second sample alone is an outlier (further than the threshold from the first
  sample and from 0, the first and third samples being within the threshold of
  0), it becomes NaN in \<open>run\<close> and the float mean of 0 and the third sample in
  \<open>run_interp\<close>: the comparison value is 0 there.  For the recording
  \<open>[0, 1, 2, 200, 3, 4]\<close> and threshold 50, \<open>run\<close> is \<open>[0, 1, 2, NaN, 3, 4]\<close> and
  \<open>run_interp\<close> holds 2.5 in place of the NaN.
\<close>

theorem load_run_speed_repairs_runs:
  "(2 \<le> length xs \<longrightarrow> \<not> fl_gt (fl_abs (fl_sub (Fin (xs ! 1)) (Fin (xs ! 0)))) thr \<longrightarrow>
      \<not> last (outlier_labels thr xs) \<longrightarrow>
      (\<exists>st. load_run_speed thr (map Fin xs) = Inr st
         \<and> length (run st) = length xs \<and> length (run_interp st) = length xs
         \<and> (\<forall>p<length xs.
               run st ! p = (if outlier_labels thr xs ! p then NaN else Fin (xs ! p)))
         \<and> (\<forall>p<length xs.
               \<not> outlier_labels thr xs ! p \<longrightarrow> run_interp st ! p = Fin (xs ! p))
         \<and> (\<forall>p. 0 < p \<and> Suc p < length xs \<and> \<not> outlier_labels thr xs ! (p - 1)
                  \<and> outlier_labels thr xs ! p \<and> \<not> outlier_labels thr xs ! Suc p \<longrightarrow>
               run_interp st ! p = fl_mean2 (Fin (xs ! (p - 1))) (Fin (xs ! Suc p))
             \<and> (xs ! (p - 1) + xs ! Suc p \<in> \<int> \<and> \<bar>xs ! (p - 1) + xs ! Suc p\<bar> \<le> 2 ^ 52 \<longrightarrow>
                  run_interp st ! p = Fin (lin_interp (xs ! (p - 1)) (xs ! Suc p) 1 1)))))
   \<and> (xs \<noteq> [] \<longrightarrow> \<not> outlier_labels thr xs ! 0)
   \<and> (\<forall>p q. q < p \<and> p < length xs \<and> \<not> outlier_labels thr xs ! q
            \<and> (\<forall>j. q < j \<and> j < p \<longrightarrow> outlier_labels thr xs ! j) \<longrightarrow>
          (outlier_labels thr xs ! p
             \<longleftrightarrow> fl_gt (fl_abs (fl_sub (Fin (xs ! p)) (Fin (xs ! q)))) thr))
   \<and> (fl_gt (fl_abs (fl_sub (Fin y) (Fin x0))) thr \<longrightarrow> \<not> \<bar>x0\<bar> > thr \<longrightarrow>
      fl_gt (fl_abs (fl_sub (Fin y) (Fin 0))) thr \<longrightarrow>
      \<not> fl_gt (fl_abs (fl_sub (Fin b) (Fin 0))) thr \<longrightarrow>
      \<not> last (outlier_labels thr (b # post)) \<longrightarrow>
      (\<exists>st. load_run_speed thr (map Fin (x0 # y # b # post)) = Inr st
         \<and> take 3 (run st) = [Fin x0, NaN, Fin b]
         \<and> take 3 (run_interp st) = [Fin x0, fl_mean2 (Fin 0) (Fin b), Fin b]))
   \<and> load_run_speed 50 (map Fin [0, 1, 2, 200, 3, 4])
       = Inr \<lparr>run = [Fin 0, Fin 1, Fin 2, NaN, Fin 3, Fin 4],
              run_interp = [Fin 0, Fin 1, Fin 2, Fin (5 / 2), Fin 3, Fin 4],
              at_idx = 3, run_log = [RunValuesReplaced 2]\<rparr>"
proof (intro conjI impI allI)
  assume len: "2 \<le> length xs"
    and first: "\<not> fl_gt (fl_abs (fl_sub (Fin (xs ! 1)) (Fin (xs ! 0)))) thr"
    and cl: "\<not> last (outlier_labels thr xs)"
  have first': "\<not> outl thr (xs ! 1) (xs ! 0)" using first unfolding outl_def .
  from load_run_speed_labels[OF len first' cl] obtain st where
    st: "load_run_speed thr (map Fin xs) = Inr st"
    and l: "length (run st) = length xs" "length (run_interp st) = length xs"
    and 2: "\<forall>p<length xs.
      run st ! p = (if outlier_labels thr xs ! p then NaN else Fin (xs ! p))"
    and 3: "\<forall>p<length xs. \<not> outlier_labels thr xs ! p \<longrightarrow> run_interp st ! p = Fin (xs ! p)"
    and 4: "\<forall>p. 0 < p \<and> Suc p < length xs \<and> \<not> outlier_labels thr xs ! (p - 1)
                  \<and> outlier_labels thr xs ! p \<and> \<not> outlier_labels thr xs ! Suc p \<longrightarrow>
               run_interp st ! p = fl_mean2 (Fin (xs ! (p - 1))) (Fin (xs ! Suc p))"
    by blast
  have 5: "\<forall>p. 0 < p \<and> Suc p < length xs \<and> \<not> outlier_labels thr xs ! (p - 1)
                  \<and> outlier_labels thr xs ! p \<and> \<not> outlier_labels thr xs ! Suc p \<longrightarrow>
               run_interp st ! p = fl_mean2 (Fin (xs ! (p - 1))) (Fin (xs ! Suc p))
             \<and> (xs ! (p - 1) + xs ! Suc p \<in> \<int> \<and> \<bar>xs ! (p - 1) + xs ! Suc p\<bar> \<le> 2 ^ 52 \<longrightarrow>
                  run_interp st ! p = Fin (lin_interp (xs ! (p - 1)) (xs ! Suc p) 1 1))"
  proof (intro allI impI conjI)
    fix p
    assume a: "0 < p \<and> Suc p < length xs \<and> \<not> outlier_labels thr xs ! (p - 1)
                  \<and> outlier_labels thr xs ! p \<and> \<not> outlier_labels thr xs ! Suc p"
    with 4 show m: "run_interp st ! p = fl_mean2 (Fin (xs ! (p - 1))) (Fin (xs ! Suc p))"
      by blast
    assume e: "xs ! (p - 1) + xs ! Suc p \<in> \<int> \<and> \<bar>xs ! (p - 1) + xs ! Suc p\<bar> \<le> 2 ^ 52"
    then have "fl_mean2 (Fin (xs ! (p - 1))) (Fin (xs ! Suc p))
        = Fin ((xs ! (p - 1) + xs ! Suc p) / 2)"
      unfolding pow_52 by (intro fl_mean2_exact) simp_all
    with m show "run_interp st ! p = Fin (lin_interp (xs ! (p - 1)) (xs ! Suc p) 1 1)"
      by (simp only: lin_interp_mid)
  qed
  from st l 2 3 5
  show "\<exists>st. load_run_speed thr (map Fin xs) = Inr st
         \<and> length (run st) = length xs \<and> length (run_interp st) = length xs
         \<and> (\<forall>p<length xs.
               run st ! p = (if outlier_labels thr xs ! p then NaN else Fin (xs ! p)))
         \<and> (\<forall>p<length xs.
               \<not> outlier_labels thr xs ! p \<longrightarrow> run_interp st ! p = Fin (xs ! p))
         \<and> (\<forall>p. 0 < p \<and> Suc p < length xs \<and> \<not> outlier_labels thr xs ! (p - 1)
                  \<and> outlier_labels thr xs ! p \<and> \<not> outlier_labels thr xs ! Suc p \<longrightarrow>
               run_interp st ! p = fl_mean2 (Fin (xs ! (p - 1))) (Fin (xs ! Suc p))
             \<and> (xs ! (p - 1) + xs ! Suc p \<in> \<int> \<and> \<bar>xs ! (p - 1) + xs ! Suc p\<bar> \<le> 2 ^ 52 \<longrightarrow>
                  run_interp st ! p = Fin (lin_interp (xs ! (p - 1)) (xs ! Suc p) 1 1)))"
    by blast
next
  assume "xs \<noteq> []"
  then show "\<not> outlier_labels thr xs ! 0" by (cases xs) (simp_all add: outlier_labels_Cons)
next
  fix p q
  assume a: "q < p \<and> p < length xs \<and> \<not> outlier_labels thr xs ! q
            \<and> (\<forall>j. q < j \<and> j < p \<longrightarrow> outlier_labels thr xs ! j)"
  then show "outlier_labels thr xs ! p
      \<longleftrightarrow> fl_gt (fl_abs (fl_sub (Fin (xs ! p)) (Fin (xs ! q)))) thr"
    using outlier_labels_char[of q p xs thr] unfolding outl_def by blast
next
  assume f: "fl_gt (fl_abs (fl_sub (Fin y) (Fin x0))) thr" and x0: "\<not> \<bar>x0\<bar> > thr"
    and y: "fl_gt (fl_abs (fl_sub (Fin y) (Fin 0))) thr"
    and b: "\<not> fl_gt (fl_abs (fl_sub (Fin b) (Fin 0))) thr"
    and cl: "\<not> last (outlier_labels thr (b # post))"
  have c: "run_labels thr b post = [] \<or> \<not> last (run_labels thr b post)"
    using cl by (auto simp: outlier_labels_Cons split: if_splits)
  have f': "outl thr (hd [y]) x0" and y': "\<forall>z\<in>set [y]. outl thr z 0" and b': "\<not> outl thr b 0"
    using f y b unfolding outl_def by simp_all
  from load_run_speed_first_run[of "x0 # y # b # post" x0 "[y]" b post thr, OF _ _ f' x0 y' b' c]
  obtain st where "load_run_speed thr (map Fin (x0 # y # b # post)) = Inr st"
    "run st = Fin x0 # replicate (length [y]) NaN @ Fin b # excl thr b post"
    "run_interp st = Fin x0 # replicate (length [y]) (fl_mean2 (Fin 0) (Fin b))
        @ Fin b # interp thr b post"
    by auto
  then show "\<exists>st. load_run_speed thr (map Fin (x0 # y # b # post)) = Inr st
         \<and> take 3 (run st) = [Fin x0, NaN, Fin b]
         \<and> take 3 (run_interp st) = [Fin x0, fl_mean2 (Fin 0) (Fin b), Fin b]"
    by (simp add: numeral_3_eq_3)
next
  show "load_run_speed 50 (map Fin [0, 1, 2, 200, 3, 4])
       = Inr \<lparr>run = [Fin 0, Fin 1, Fin 2, NaN, Fin 3, Fin 4],
              run_interp = [Fin 0, Fin 1, Fin 2, Fin (5 / 2), Fin 3, Fin 4],
              at_idx = 3, run_log = [RunValuesReplaced 2]\<rparr>"
    by (rule run_speed_scenario)
qed

theorem load_run_speed_repairs_runs_witness:
  "(\<exists>st. load_run_speed 50 (map Fin [0, 1, 2, 200, 3, 4, 300, 310, 5]) = Inr st
      \<and> run st = [Fin 0, Fin 1, Fin 2, NaN, Fin 3, Fin 4, NaN, NaN, Fin 5]
      \<and> run_interp st ! 3 = Fin (5 / 2))
   \<and> (\<exists>st. load_run_speed 50 (map Fin [10, 200, 12, 13]) = Inr st
      \<and> take 3 (run st) = [Fin 10, NaN, Fin 12]
      \<and> take 3 (run_interp st) = [Fin 10, Fin 6, Fin 12])"
proof -
  let ?xs = "[0, 1, 2, 200, 3, 4, 300, 310, 5 :: real]"
  have lab: "outlier_labels 50 ?xs = [False, False, False, True, False, False, True, True, False]"
    by (simp add: outlier_labels_def outl_def round_f64_exact)
  have h1: "2 \<le> length ?xs" by simp
  have h2: "\<not> fl_gt (fl_abs (fl_sub (Fin (?xs ! 1)) (Fin (?xs ! 0)))) 50"
    by (simp add: round_f64_exact)
  have h3: "\<not> last (outlier_labels 50 ?xs)" by (simp add: lab)
  from load_run_speed_repairs_runs[of ?xs 50, THEN conjunct1, THEN mp, OF h1, THEN mp, OF h2,
      THEN mp, OF h3]
  obtain st where st: "load_run_speed 50 (map Fin ?xs) = Inr st"
    and l: "length (run st) = length ?xs"
    and r: "\<forall>p<length ?xs. run st ! p = (if outlier_labels 50 ?xs ! p then NaN else Fin (?xs ! p))"
    and i: "\<forall>p. 0 < p \<and> Suc p < length ?xs \<and> \<not> outlier_labels 50 ?xs ! (p - 1)
                  \<and> outlier_labels 50 ?xs ! p \<and> \<not> outlier_labels 50 ?xs ! Suc p \<longrightarrow>
               run_interp st ! p = fl_mean2 (Fin (?xs ! (p - 1))) (Fin (?xs ! Suc p))
             \<and> (?xs ! (p - 1) + ?xs ! Suc p \<in> \<int> \<and> \<bar>?xs ! (p - 1) + ?xs ! Suc p\<bar> \<le> 2 ^ 52 \<longrightarrow>
                  run_interp st ! p = Fin (lin_interp (?xs ! (p - 1)) (?xs ! Suc p) 1 1))"
    by blast
  have "run st = map (\<lambda>p. if outlier_labels 50 ?xs ! p then NaN else Fin (?xs ! p))
      [0..<length ?xs]"
    using l r by (intro nth_equalityI) (simp_all del: upt_Suc)
  also have "\<dots> = [Fin 0, Fin 1, Fin 2, NaN, Fin 3, Fin 4, NaN, NaN, Fin 5]"
    unfolding lab by code_simp
  finally have a: "run st = [Fin 0, Fin 1, Fin 2, NaN, Fin 3, Fin 4, NaN, NaN, Fin 5]" .
  have "run_interp st ! 3 = fl_mean2 (Fin (?xs ! (3 - 1))) (Fin (?xs ! Suc 3))"
    using i[rule_format, of 3] by (simp add: lab)
  then have b: "run_interp st ! 3 = Fin (5 / 2)"
    by (simp add: fl_mean2_def round_f64_exact)
  have g1: "fl_gt (fl_abs (fl_sub (Fin 200) (Fin 10))) 50" "\<not> \<bar>10\<bar> > (50::real)"
    "fl_gt (fl_abs (fl_sub (Fin 200) (Fin 0))) 50"
    "\<not> fl_gt (fl_abs (fl_sub (Fin 12) (Fin 0))) 50"
    by (simp_all add: round_f64_exact)
  have g2: "\<not> last (outlier_labels 50 [12, 13])"
    by (simp add: outlier_labels_def outl_def round_f64_exact)
  from load_run_speed_repairs_runs[of _ 50 200 10 12 "[13]", THEN conjunct2, THEN conjunct2,
      THEN conjunct2, THEN conjunct1,
      THEN mp, OF g1(1), THEN mp, OF g1(2), THEN mp, OF g1(3), THEN mp, OF g1(4), THEN mp, OF g2]
  have c: "\<exists>st. load_run_speed 50 (map Fin [10, 200, 12, 13]) = Inr st
      \<and> take 3 (run st) = [Fin 10, NaN, Fin 12]
      \<and> take 3 (run_interp st) = [Fin 10, Fin 6, Fin 12]"
    by (simp add: fl_mean2_def round_f64_exact)
  from st a b c show ?thesis by blast
qed

text \<open>
  Claim C6 as stated fails.  In \<open>[10, 200, 12]\<close> the run starts at the second
  sample, so that the value before it is taken as 0: \<open>run_interp\<close> holds 6 where
  the linear interpolation between 10 and 12 is 11.  In
  \<open>[0, 1, 2, 200, 200, 3, 4]\<close> the run has two samples and both are given the mean
  2.5, where the linear interpolation between 2 and 3 gives 7/3 and 8/3.  For
  \<open>[0, 1, 200]\<close>, which ends inside a run, the loop reads past the end of the
  array and nothing is returned.
\<close>

theorem linear_interpolation_counterexample:
  "load_run_speed 50 (map Fin [10, 200, 12])
     = Inr \<lparr>run = [Fin 10, NaN, Fin 12], run_interp = [Fin 10, Fin 6, Fin 12],
            at_idx = 1, run_log = [RunValuesReplaced 2]\<rparr>
   \<and> lin_interp 10 12 1 1 = 11
   \<and> load_run_speed 50 (map Fin [0, 1, 2, 200, 200, 3, 4])
     = Inr \<lparr>run = [Fin 0, Fin 1, Fin 2, NaN, NaN, Fin 3, Fin 4],
            run_interp = [Fin 0, Fin 1, Fin 2, Fin (5 / 2), Fin (5 / 2), Fin 3, Fin 4],
            at_idx = 4, run_log = [RunValuesReplaced 2]\<rparr>
   \<and> lin_interp 2 3 2 1 = 7 / 3 \<and> lin_interp 2 3 2 2 = 8 / 3
   \<and> load_run_speed 50 (map Fin [0, 1, 200]) = Inl IndexError"
  using run_speed_first_good run_speed_long_run ends_in_run_raises
  by (simp add: lin_interp_def)

lemma default_no_outlier:
  "load_run_speed 100 (map Fin [0, 60, 0])
     = Inr \<lparr>run = [Fin 0, Fin 60, Fin 0], run_interp = [Fin 0, Fin 60, Fin 0], at_idx = - 1,
            run_log = []\<rparr>"
  by (simp add: run_eval)

lemma default_last_kept:
  "load_run_speed 100 (map Fin [0, 0, 200, 250, 0])
     = Inr \<lparr>run = [Fin 0, Fin 0, NaN, NaN, Fin 0],
            run_interp = [Fin 0, Fin 0, Fin 0, Fin 0, Fin 0], at_idx = 3,
            run_log = [RunValuesReplaced 2]\<rparr>"
  by (simp add: run_eval)

lemma default_first_off:
  "load_run_speed 100 (map Fin [150, 40, 30])
     = Inr \<lparr>run = [NaN, Fin 40, Fin 30], run_interp = [Fin 20, Fin 40, Fin 30], at_idx = 0,
            run_log = [RunValuesReplaced 1]\<rparr>"
  by (simp add: run_eval)

lemma default_ends_in_run: "load_run_speed 100 (map Fin [0, 101]) = Inl IndexError"
  by (simp add: run_eval)

text \<open>
  Claim C7 (as amended).  The threshold of \<open>_load_run_speed\<close> defaults to 100,
  and \<open>_load_stim_dict\<close> loads the running speed with that default.  Take a
  recording of at least two samples whose second sample is within 100 of the
  first, by the float test \<open>np.absolute(x - g) > 100\<close>, and which does not end
  inside a run of outliers (\<open>outlier_labels\<close>, described by the last two parts of
  the statement).  Then the load returns, keeps the first sample, leaves in
  \<open>run\<close> each sample either as recorded or replaced by NaN, and replaces a
  sample iff it is further than 100 from the last sample before it that was
  kept.
\<close>

theorem default_outlier_threshold:
  "diff_thr_default = 100
   \<and> load_stim_dict_run_speed rn = load_run_speed 100 rn
   \<and> (2 \<le> length xs \<longrightarrow> \<not> fl_gt (fl_abs (fl_sub (Fin (xs ! 1)) (Fin (xs ! 0)))) 100 \<longrightarrow>
      \<not> last (outlier_labels 100 xs) \<longrightarrow>
      (\<exists>st. load_stim_dict_run_speed (map Fin xs) = Inr st
         \<and> length (run st) = length xs
         \<and> run st ! 0 = Fin (xs ! 0)
         \<and> (\<forall>p<length xs. run st ! p = NaN \<or> run st ! p = Fin (xs ! p))
         \<and> (\<forall>p q. q < p \<and> p < length xs \<and> run st ! q \<noteq> NaN
                  \<and> (\<forall>j. q < j \<and> j < p \<longrightarrow> run st ! j = NaN) \<longrightarrow>
               (run st ! p = NaN
                  \<longleftrightarrow> fl_gt (fl_abs (fl_sub (Fin (xs ! p)) (Fin (xs ! q)))) 100))))
   \<and> (xs \<noteq> [] \<longrightarrow> \<not> outlier_labels 100 xs ! 0)
   \<and> (\<forall>p q. q < p \<and> p < length xs \<and> \<not> outlier_labels 100 xs ! q
            \<and> (\<forall>j. q < j \<and> j < p \<longrightarrow> outlier_labels 100 xs ! j) \<longrightarrow>
          (outlier_labels 100 xs ! p
             \<longleftrightarrow> fl_gt (fl_abs (fl_sub (Fin (xs ! p)) (Fin (xs ! q)))) 100))"
proof (intro conjI impI allI)
  show "diff_thr_default = 100" by (simp add: diff_thr_default_def)
  show "load_stim_dict_run_speed rn = load_run_speed 100 rn"
    by (simp add: load_stim_dict_run_speed_def diff_thr_default_def)
next
  assume len: "2 \<le> length xs"
    and first: "\<not> fl_gt (fl_abs (fl_sub (Fin (xs ! 1)) (Fin (xs ! 0)))) 100"
    and cl: "\<not> last (outlier_labels 100 xs)"
  have first': "\<not> outl 100 (xs ! 1) (xs ! 0)" using first unfolding outl_def .
  from load_run_speed_labels[OF len first' cl] obtain st where
    st: "load_run_speed 100 (map Fin xs) = Inr st"
    and l: "length (run st) = length xs"
    and r: "\<forall>p<length xs.
      run st ! p = (if outlier_labels 100 xs ! p then NaN else Fin (xs ! p))"
    by blast
  have ne: "xs \<noteq> []" using len by auto
  have l0: "\<not> outlier_labels 100 xs ! 0"
    using ne by (cases xs) (simp_all add: outlier_labels_Cons)
  have nan: "run st ! p = NaN \<longleftrightarrow> outlier_labels 100 xs ! p" if "p < length xs" for p
    using r that by simp
  have a: "run st ! 0 = Fin (xs ! 0)" using r l0 ne by simp
  have b: "\<forall>p<length xs. run st ! p = NaN \<or> run st ! p = Fin (xs ! p)" using r by simp
  have c: "\<forall>p q. q < p \<and> p < length xs \<and> run st ! q \<noteq> NaN
                  \<and> (\<forall>j. q < j \<and> j < p \<longrightarrow> run st ! j = NaN) \<longrightarrow>
               (run st ! p = NaN
                  \<longleftrightarrow> fl_gt (fl_abs (fl_sub (Fin (xs ! p)) (Fin (xs ! q)))) 100)"
  proof (intro allI impI)
    fix p q
    assume h: "q < p \<and> p < length xs \<and> run st ! q \<noteq> NaN
                  \<and> (\<forall>j. q < j \<and> j < p \<longrightarrow> run st ! j = NaN)"
    then have q: "\<not> outlier_labels 100 xs ! q" using nan[of q] by simp
    have j: "\<forall>j. q < j \<and> j < p \<longrightarrow> outlier_labels 100 xs ! j"
    proof (intro allI impI)
      fix j assume "q < j \<and> j < p"
      with h show "outlier_labels 100 xs ! j" using nan[of j] by simp
    qed
    have "outlier_labels 100 xs ! p = outl 100 (xs ! p) (xs ! q)"
      using outlier_labels_char[of q p xs 100] h q j by blast
    with h show "run st ! p = NaN
        \<longleftrightarrow> fl_gt (fl_abs (fl_sub (Fin (xs ! p)) (Fin (xs ! q)))) 100"
      using nan[of p] unfolding outl_def by simp
  qed
  from st l a b c
  show "\<exists>st. load_stim_dict_run_speed (map Fin xs) = Inr st
         \<and> length (run st) = length xs
         \<and> run st ! 0 = Fin (xs ! 0)
         \<and> (\<forall>p<length xs. run st ! p = NaN \<or> run st ! p = Fin (xs ! p))
         \<and> (\<forall>p q. q < p \<and> p < length xs \<and> run st ! q \<noteq> NaN
                  \<and> (\<forall>j. q < j \<and> j < p \<longrightarrow> run st ! j = NaN) \<longrightarrow>
               (run st ! p = NaN
                  \<longleftrightarrow> fl_gt (fl_abs (fl_sub (Fin (xs ! p)) (Fin (xs ! q)))) 100))"
    unfolding load_stim_dict_run_speed_def diff_thr_default_def by blast
next
  assume "xs \<noteq> []"
  then show "\<not> outlier_labels 100 xs ! 0" by (cases xs) (simp_all add: outlier_labels_Cons)
next
  fix p q
  assume a: "q < p \<and> p < length xs \<and> \<not> outlier_labels 100 xs ! q
            \<and> (\<forall>j. q < j \<and> j < p \<longrightarrow> outlier_labels 100 xs ! j)"
  then show "outlier_labels 100 xs ! p
      \<longleftrightarrow> fl_gt (fl_abs (fl_sub (Fin (xs ! p)) (Fin (xs ! q)))) 100"
    using outlier_labels_char[of q p xs 100] unfolding outl_def by blast
qed

theorem default_outlier_threshold_witness:
  "\<exists>st. load_stim_dict_run_speed (map Fin [0, 0, 200, 250, 0]) = Inr st
     \<and> length (run st) = 5 \<and> run st ! 0 = Fin 0 \<and> run st ! 1 = Fin 0 \<and> run st ! 2 = NaN"
proof -
  let ?xs = "[0, 0, 200, 250, 0 :: real]"
  have lab: "outlier_labels 100 ?xs = [False, False, True, True, False]"
    by (simp add: outlier_labels_def outl_def round_f64_exact)
  have h1: "2 \<le> length ?xs" by simp
  have h2: "\<not> fl_gt (fl_abs (fl_sub (Fin (?xs ! 1)) (Fin (?xs ! 0)))) 100"
    by (simp add: round_f64_exact)
  have h3: "\<not> last (outlier_labels 100 ?xs)" by (simp add: lab)
  from default_outlier_threshold[of _ ?xs, THEN conjunct2, THEN conjunct2, THEN conjunct1,
      THEN mp, OF h1, THEN mp, OF h2, THEN mp, OF h3]
  obtain st where st: "load_stim_dict_run_speed (map Fin ?xs) = Inr st"
    and l: "length (run st) = length ?xs"
    and r0: "run st ! 0 = Fin (?xs ! 0)"
    and v: "\<forall>p<length ?xs. run st ! p = NaN \<or> run st ! p = Fin (?xs ! p)"
    and c: "\<forall>p q. q < p \<and> p < length ?xs \<and> run st ! q \<noteq> NaN
                  \<and> (\<forall>j. q < j \<and> j < p \<longrightarrow> run st ! j = NaN) \<longrightarrow>
               (run st ! p = NaN
                  \<longleftrightarrow> fl_gt (fl_abs (fl_sub (Fin (?xs ! p)) (Fin (?xs ! q)))) 100)"
    by blast
  have k0: "run st ! 0 \<noteq> NaN" using r0 by simp
  have "run st ! 1 = NaN \<longleftrightarrow> fl_gt (fl_abs (fl_sub (Fin (?xs ! 1)) (Fin (?xs ! 0)))) 100"
    using c[THEN spec[of _ 1], THEN spec[of _ 0]] k0 by auto
  then have n1: "run st ! 1 \<noteq> NaN" by (simp add: round_f64_exact)
  with v[rule_format, of 1] have r1: "run st ! 1 = Fin 0" by simp
  have "run st ! 2 = NaN \<longleftrightarrow> fl_gt (fl_abs (fl_sub (Fin (?xs ! 2)) (Fin (?xs ! 1)))) 100"
    using c[THEN spec[of _ 2], THEN spec[of _ 1]] n1 by auto
  then have r2: "run st ! 2 = NaN" by (simp add: round_f64_exact)
  from st l r0 r1 r2 show ?thesis by auto
qed

text \<open>
  Claim C7 as stated fails.  With no threshold argument a jump of 60, which
  exceeds 50, leaves the recording \<open>[0, 60, 0]\<close> as it is.  In
  \<open>[0, 0, 200, 250, 0]\<close> the sample 250 is replaced though it is within 100 of its
  predecessor 200, and the last sample is kept though it is further than 100
  from its predecessor 250: both are compared with the last sample kept.  In
  \<open>[150, 40, 30]\<close> the second sample is further than 100 from the first: it is
  compared with 0 and kept, and the first sample is replaced.  The recording
  \<open>[0, 101]\<close> ends inside a run, and nothing is returned.
\<close>

theorem threshold_50_counterexample:
  "fl_gt (fl_abs (fl_sub (Fin 60) (Fin 0))) 50
   \<and> load_stim_dict_run_speed (map Fin [0, 60, 0])
       = Inr \<lparr>run = [Fin 0, Fin 60, Fin 0], run_interp = [Fin 0, Fin 60, Fin 0], at_idx = - 1,
              run_log = []\<rparr>
   \<and> \<not> fl_gt (fl_abs (fl_sub (Fin 250) (Fin 200))) 100
   \<and> fl_gt (fl_abs (fl_sub (Fin 0) (Fin 250))) 100
   \<and> load_stim_dict_run_speed (map Fin [0, 0, 200, 250, 0])
       = Inr \<lparr>run = [Fin 0, Fin 0, NaN, NaN, Fin 0],
              run_interp = [Fin 0, Fin 0, Fin 0, Fin 0, Fin 0], at_idx = 3,
              run_log = [RunValuesReplaced 2]\<rparr>
   \<and> load_stim_dict_run_speed (map Fin [150, 40, 30])
       = Inr \<lparr>run = [NaN, Fin 40, Fin 30], run_interp = [Fin 20, Fin 40, Fin 30], at_idx = 0,
              run_log = [RunValuesReplaced 1]\<rparr>
   \<and> load_stim_dict_run_speed (map Fin [0, 101]) = Inl IndexError"
  using default_no_outlier default_last_kept default_first_off default_ends_in_run
  by (simp add: load_stim_dict_run_speed_def diff_thr_default_def round_f64_exact)

section \<open>Properties of the segment queries\<close>

lemma fold_min_le: "fold min ys (a::int) \<le> a \<and> (\<forall>y\<in>set ys. fold min ys a \<le> y)"
proof (induction ys arbitrary: a)
  case Nil
  show ?case by simp
next
  case (Cons y ys)
  from Cons.IH[of "min a y"] show ?case by (auto simp: min_def split: if_splits)
qed

lemma fold_max_ge: "a \<le> fold max ys (a::int) \<and> (\<forall>y\<in>set ys. y \<le> fold max ys a)"
proof (induction ys arbitrary: a)
  case Nil
  show ?case by simp
next
  case (Cons y ys)
  from Cons.IH[of "max a y"] show ?case by (auto simp: max_def split: if_splits)
qed

lemma list_min_le: "x \<in> set xs \<Longrightarrow> list_min xs \<le> x"
  using fold_min_le[of "tl xs" "hd xs"] by (cases xs) (auto simp: list_min_def)

lemma list_max_ge: "x \<in> set xs \<Longrightarrow> x \<le> list_max xs"
  using fold_max_ge[of "hd xs" "tl xs"] by (cases xs) (auto simp: list_max_def)

lemma concat_filter_nonempty: "concat (filter (\<lambda>x. x \<noteq> []) xs) = concat xs"
  by (induction xs) auto

lemma filter_nonempty_Nil_iff: "filter (\<lambda>x. x \<noteq> []) xs = [] \<longleftrightarrow> concat xs = []"
  by (induction xs) auto

lemma concat_concat_nonempty:
  "concat (concat (filter (\<lambda>t. t \<noteq> [])
       (map (\<lambda>i. filter (\<lambda>x. x \<noteq> []) (map f i)) bs)))
   = concat (map f (concat bs))"
  by (induction bs) (simp_all add: concat_filter_nonempty filter_nonempty_Nil_iff del: filter_map)

lemma nonempty_segs_iff:
  "filter (\<lambda>t. t \<noteq> [])
       (map (\<lambda>i. filter (\<lambda>x. x \<noteq> []) (map f i)) bs) = []
   \<longleftrightarrow> concat (map f (concat bs)) = []"
  by (induction bs) (simp_all add: filter_nonempty_Nil_iff del: filter_map)

lemma get_segs_by_seg:
  "get_segs_by_criteria st c remconsec ''seg'' =
     (case format_stim_criteria st c of
        Inl e \<Rightarrow> Inl e
      | Inr fc \<Rightarrow> if flat_idxs st fc remconsec = [] then Inl ValueError
                  else Inr (BySeg (flat_idxs st fc remconsec)))"
proof (cases "format_stim_criteria st c")
  case (Inl e)
  then show ?thesis by (simp add: get_segs_by_criteria_def)
next
  case (Inr fc)
  then show ?thesis
    unfolding get_segs_by_criteria_def Let_def flat_idxs_def length_0_conv
    by (simp add: nonempty_segs_iff concat_concat_nonempty del: filter_map)
qed

lemma format_range_any:
  "format_range df col RangeAny RangeAny =
     (if df = [] then Inl ValueError else Inr (list_min (map col df), list_max (map col df) + 1))"
  by (simp add: format_range_def)

lemma in_any_range:
  "r \<in> set df \<Longrightarrow> list_min (map col df) \<le> col r \<and> col r < list_max (map col df) + 1"
  using list_min_le[of "col r" "map col df"] list_max_ge[of "col r" "map col df"] by auto

lemma format_bounds_empty:
  "stim_df st = [] \<Longrightarrow> format_stim_criteria st (bounds_criteria sp) = Inl ValueError"
  by (simp add: format_stim_criteria_def bounds_criteria_def default_criteria_def
      format_range_any ebind_def Let_def)

lemma format_segs_empty:
  "stim_df st = [] \<Longrightarrow> format_stim_criteria st (segs_criteria sp surp_c) = Inl ValueError"
  by (simp add: format_stim_criteria_def segs_criteria_def default_criteria_def
      format_range_any ebind_def Let_def)

lemma format_bounds_nonempty:
  "stim_df st \<noteq> [] \<Longrightarrow> \<exists>fc. format_stim_criteria st (bounds_criteria sp) = Inr fc"
  by (simp add: format_stim_criteria_def bounds_criteria_def default_criteria_def
      format_range_any ebind_def Let_def)

lemma format_segs_nonempty:
  "stim_df st \<noteq> [] \<Longrightarrow> \<exists>fc. format_stim_criteria st (segs_criteria sp surp_c) = Inr fc"
  by (simp add: format_stim_criteria_def segs_criteria_def default_criteria_def
      format_range_any ebind_def Let_def)

lemma row_ok_mono:
  assumes f2: "format_stim_criteria st (segs_criteria sp surp_c) = Inr fc2"
    and f1: "format_stim_criteria st (bounds_criteria sp) = Inr fc1"
    and r: "r \<in> set (stim_df st)" and ok: "row_ok st fc2 r"
  shows "row_ok st fc1 r"
proof -
  have ne: "stim_df st \<noteq> []" using r by auto
  show ?thesis
  proof (cases "stimtype st")
    case Gabors
    with f1 f2 ne ok r in_any_range[OF r, of start2pfr] in_any_range[OF r, of end2pfr]
      in_any_range[OF r, of num2pfr]
    show ?thesis
      by (auto simp: format_stim_criteria_def segs_criteria_def bounds_criteria_def
          default_criteria_def format_range_any ebind_def Let_def row_ok_def
          get_df_label_vals_def par_vals_def remove_if_def)
  next
    case Bricks
    with f1 f2 ne ok r in_any_range[OF r, of start2pfr] in_any_range[OF r, of end2pfr]
      in_any_range[OF r, of num2pfr]
    show ?thesis
      by (auto simp: format_stim_criteria_def segs_criteria_def bounds_criteria_def
          default_criteria_def format_range_any ebind_def Let_def row_ok_def
          get_df_label_vals_def par_vals_def remove_if_def)
  qed
qed

lemma set_rem_consec: "set (rem_consec xs) \<subseteq> set xs"
  by (auto simp: rem_consec_def)

lemma block_idxs_mono:
  assumes "format_stim_criteria st (segs_criteria sp surp_c) = Inr fc2"
    and "format_stim_criteria st (bounds_criteria sp) = Inr fc1"
  shows "set (block_idxs st fc2 remconsec j) \<subseteq> set (block_idxs st fc1 False j)"
proof -
  have "set (block_idxs st fc2 remconsec j) \<subseteq> set (block_idxs st fc2 False j)"
    by (cases remconsec)
      (simp_all only: block_idxs_def Let_def if_True if_False set_rem_consec subset_refl)
  moreover have "set (block_idxs st fc2 False j) \<subseteq> set (block_idxs st fc1 False j)"
    using row_ok_mono[OF assms] by (auto simp: block_idxs_def Let_def)
  ultimately show ?thesis by blast
qed

lemma flat_idxs_mono:
  assumes "format_stim_criteria st (segs_criteria sp surp_c) = Inr fc2"
    and "format_stim_criteria st (bounds_criteria sp) = Inr fc1"
  shows "set (flat_idxs st fc2 remconsec) \<subseteq> set (flat_idxs st fc1 False)"
  using block_idxs_mono[OF assms] by (fastforce simp: flat_idxs_def)

lemma query_segs_by_seg:
  "query_segs empty_ok (get_segs_by_criteria st c remconsec ''seg'') =
     (case format_stim_criteria st c of
        Inl e \<Rightarrow> if e = ValueError \<and> empty_ok then Inr [] else Inl e
      | Inr fc \<Rightarrow> if flat_idxs st fc remconsec = [] then (if empty_ok then Inr [] else Inl ValueError)
                  else Inr (flat_idxs st fc remconsec))"
  by (simp add: get_segs_by_seg query_segs_def split: sum.splits)

lemma segs_query_subset:
  assumes "get_segs_by_criteria st (segs_criteria sp surp_c) remconsec ''seg'' = Inr (BySeg S)"
  shows "\<exists>A. get_segs_by_criteria st (bounds_criteria sp) False ''seg'' = Inr (BySeg A)
           \<and> set S \<subseteq> set A \<and> S \<noteq> []"
proof -
  from assms obtain fc2 where f2: "format_stim_criteria st (segs_criteria sp surp_c) = Inr fc2"
    and S: "S = flat_idxs st fc2 remconsec" and ne: "flat_idxs st fc2 remconsec \<noteq> []"
    by (auto simp: get_segs_by_seg split: sum.splits if_splits)
  have "stim_df st \<noteq> []" using f2 format_segs_empty[of st sp surp_c] by auto
  then obtain fc1 where f1: "format_stim_criteria st (bounds_criteria sp) = Inr fc1"
    using format_bounds_nonempty by blast
  have sub: "set S \<subseteq> set (flat_idxs st fc1 False)"
    using flat_idxs_mono[OF f2 f1] S by simp
  with ne S have "flat_idxs st fc1 False \<noteq> []" by auto
  with f1 sub ne S show ?thesis by (auto simp: get_segs_by_seg)
qed

section \<open>Properties of the quintiles\<close>

lemma bin_lower:
  fixes q N D x :: real
  assumes "0 < N" "0 < D"
  shows "q * (D / N) + a \<le> s \<longleftrightarrow> q \<le> (s - a) * N / D"
proof -
  have "q * (D / N) + a \<le> s \<longleftrightarrow> q * D / N \<le> s - a" by (simp add: algebra_simps)
  also have "\<dots> \<longleftrightarrow> q * D \<le> (s - a) * N" using assms(1) by (simp add: pos_divide_le_eq)
  also have "\<dots> \<longleftrightarrow> q \<le> (s - a) * N / D" using assms(2) by (simp add: pos_le_divide_eq)
  finally show ?thesis .
qed

lemma bin_upper:
  fixes q N D x :: real
  assumes "0 < N" "0 < D"
  shows "s < (q + 1) * (D / N) + a \<longleftrightarrow> (s - a) * N / D < q + 1"
proof -
  have "s < (q + 1) * (D / N) + a \<longleftrightarrow> s - a < (q + 1) * D / N" by (simp add: algebra_simps)
  also have "\<dots> \<longleftrightarrow> (s - a) * N < (q + 1) * D" using assms(1) by (simp add: pos_less_divide_eq)
  also have "\<dots> \<longleftrightarrow> (s - a) * N / D < q + 1" using assms(2) by (simp add: pos_divide_less_eq)
  finally show ?thesis .
qed

lemma in_quint_floor:
  assumes "0 < n" "a < b"
  shows "in_quint n a b q s \<longleftrightarrow>
     q = \<lfloor>real_of_int (s - a) * real_of_int n / real_of_int (b - a)\<rfloor>"
proof -
  let ?x = "real_of_int (s - a) * real_of_int n / real_of_int (b - a)"
  have N: "0 < real_of_int n" and D: "0 < real_of_int (b - a)" using assms by simp_all
  have "in_quint n a b q s \<longleftrightarrow> real_of_int q \<le> ?x \<and> ?x < real_of_int q + 1"
    using assms bin_lower[OF N D, of "real_of_int q" "real_of_int a" "real_of_int s"]
      bin_upper[OF N D, of "real_of_int s" "real_of_int q" "real_of_int a"]
    by (simp add: in_quint_def Let_def)
  also have "\<dots> \<longleftrightarrow> \<lfloor>?x\<rfloor> = q" by (simp only: floor_eq_iff)
  also have "\<dots> \<longleftrightarrow> q = \<lfloor>?x\<rfloor>" by (rule eq_commute)
  finally show ?thesis .
qed

lemma quint_of_range:
  assumes "0 < n" "a \<le> s" "s < b"
  shows "0 \<le> \<lfloor>real_of_int (s - a) * real_of_int n / real_of_int (b - a)\<rfloor>"
    and "\<lfloor>real_of_int (s - a) * real_of_int n / real_of_int (b - a)\<rfloor> < n"
proof -
  have ab: "a < b" using assms by simp
  show "0 \<le> \<lfloor>real_of_int (s - a) * real_of_int n / real_of_int (b - a)\<rfloor>"
    using assms ab by simp
  have "real_of_int (s - a) * real_of_int n / real_of_int (b - a) < real_of_int n"
    using assms ab by (simp add: pos_divide_less_eq)
  then show "\<lfloor>real_of_int (s - a) * real_of_int n / real_of_int (b - a)\<rfloor> < n"
    by (simp add: floor_less_iff)
qed

lemma sum_indicator_distinct:
  "distinct qs \<Longrightarrow> c \<in> set qs \<Longrightarrow> sum_list (map (\<lambda>q. if c = q then (1::nat) else 0) qs) = 1"
  by (induction qs) auto

lemma sum_indicator_0:
  "c \<notin> set qs \<Longrightarrow> sum_list (map (\<lambda>q. if c = q then (1::nat) else 0) qs) = 0"
  by (induction qs) auto

lemma bins_count:
  assumes "distinct qs" "\<forall>s\<in>set S. f s \<in> set qs"
  shows "sum_list (map (\<lambda>q. length (filter (\<lambda>s. q = f s) S)) qs) = length S"
  using assms(2)
proof (induction S)
  case Nil
  show ?case by simp
next
  case (Cons s S)
  have "sum_list (map (\<lambda>q. length (filter (\<lambda>s. q = f s) (s # S))) qs)
      = sum_list (map (\<lambda>q. (if f s = q then 1 else 0) + length (filter (\<lambda>s. q = f s) S)) qs)"
    by (rule arg_cong[where f = sum_list], rule map_cong) auto
  also have "\<dots> = sum_list (map (\<lambda>q. if f s = q then (1::nat) else 0) qs)
      + sum_list (map (\<lambda>q. length (filter (\<lambda>s. q = f s) S)) qs)"
    by (simp add: sum_list_addf)
  also have "\<dots> = 1 + length S"
    using sum_indicator_distinct[OF assms(1), of "f s"] Cons by simp
  finally show ?case by simp
qed

lemma quint_segs_closed:
  assumes I: "(case qu_idx_arg of None \<Rightarrow> Inr (map int [0..<nat n_quints])
               | Some l \<Rightarrow> pos_idx gu l n_quints) = Inr qu_idx"
    and A: "query_segs empty_ok (get_segs_by_criteria st (bounds_criteria sp) False ''seg'') = Inr A"
    and S: "query_segs empty_ok
              (get_segs_by_criteria st (segs_criteria sp surp_c) remconsec ''seg'') = Inr S"
    and nz: "n_quints \<noteq> 0 \<or> A \<noteq> []"
  shows "quint_segs gu st sp n_quints qu_idx_arg surp_c empty_ok remconsec False =
     Inr \<lparr>qu_segs = map (\<lambda>q. filter (in_quint n_quints (fst (seg_bounds A)) (snd (seg_bounds A)) q) S)
                       qu_idx,
          qu_counts = map length
             (map (\<lambda>q. filter (in_quint n_quints (fst (seg_bounds A)) (snd (seg_bounds A)) q) S)
                       qu_idx),
          qu_n_consec = None\<rparr>"
  using nz unfolding quint_segs_def I A S ebind_def
  by (auto simp: Let_def split: prod.splits)

lemma query_segs_Inr: "query_segs empty_ok (Inr (BySeg l)) = Inr l"
  by (simp add: query_segs_def)

lemma seg_bounds_nonempty: "A \<noteq> [] \<Longrightarrow> seg_bounds A = (list_min A, list_max A + 1)"
  by (simp add: seg_bounds_def)

lemma list_min_le_max: "A \<noteq> [] \<Longrightarrow> list_min A \<le> list_max A"
  using list_min_le[of "hd A" A] list_max_ge[of "hd A" A] by (cases A) auto

lemma quint_segs_by_floor:
  assumes q2: "get_segs_by_criteria st (segs_criteria sp surp_c) remconsec ''seg'' = Inr (BySeg S)"
    and n: "0 < n"
  shows "\<exists>A. get_segs_by_criteria st (bounds_criteria sp) False ''seg'' = Inr (BySeg A)
     \<and> A \<noteq> [] \<and> set S \<subseteq> set A
     \<and> quint_segs gu st sp n None surp_c empty_ok remconsec False =
       Inr \<lparr>qu_segs = map (\<lambda>q. filter (\<lambda>s. q = quint_of n A s) S) (map int [0..<nat n]),
            qu_counts = map length
               (map (\<lambda>q. filter (\<lambda>s. q = quint_of n A s) S) (map int [0..<nat n])),
            qu_n_consec = None\<rparr>"
proof -
  from segs_query_subset[OF q2] obtain A
    where q1: "get_segs_by_criteria st (bounds_criteria sp) False ''seg'' = Inr (BySeg A)"
      and sub: "set S \<subseteq> set A" and ne: "S \<noteq> []"
    by blast
  have Ane: "A \<noteq> []" using sub ne by auto
  have ab: "list_min A < list_max A + 1" using list_min_le_max[OF Ane] by simp
  have eq: "in_quint n (fst (seg_bounds A)) (snd (seg_bounds A)) q = (\<lambda>s. q = quint_of n A s)" for q
    unfolding seg_bounds_nonempty[OF Ane] fst_conv snd_conv quint_of_def
    using in_quint_floor[OF n ab] by auto
  have "quint_segs gu st sp n None surp_c empty_ok remconsec False =
       Inr \<lparr>qu_segs = map (\<lambda>q. filter (\<lambda>s. q = quint_of n A s) S) (map int [0..<nat n]),
            qu_counts = map length
               (map (\<lambda>q. filter (\<lambda>s. q = quint_of n A s) S) (map int [0..<nat n])),
            qu_n_consec = None\<rparr>"
    using quint_segs_closed[where qu_idx_arg = None and n_quints = n and gu = gu
        and qu_idx = "map int [0..<nat n]" and empty_ok = empty_ok and st = st and sp = sp
        and A = A and surp_c = surp_c and remconsec = remconsec and S = S]
      Ane n
    by (simp add: q1 q2 query_segs_Inr eq)
  with q1 Ane sub show ?thesis by blast
qed

lemma quint_of_range_S:
  assumes "0 < n" "s \<in> set A"
  shows "0 \<le> quint_of n A s \<and> quint_of n A s < n"
  unfolding quint_of_def
  using quint_of_range[of n "list_min A" s "list_max A + 1"] assms
    list_min_le[of s A] list_max_ge[of s A]
  by simp

lemma quint_segs_partition_n:
  assumes q2: "get_segs_by_criteria st (segs_criteria sp surp_c) remconsec ''seg'' = Inr (BySeg S)"
    and n: "0 < n"
  shows "\<exists>r. quint_segs gu st sp n None surp_c empty_ok remconsec False = Inr r
     \<and> length (qu_segs r) = nat n
     \<and> (\<forall>i<nat n. \<forall>j<nat n. i \<noteq> j \<longrightarrow> set (qu_segs r ! i) \<inter> set (qu_segs r ! j) = {})
     \<and> (\<Union>i<nat n. set (qu_segs r ! i)) = set S
     \<and> sum_list (qu_counts r) = length S"
proof -
  from quint_segs_by_floor[OF q2 n, of gu empty_ok] obtain A where
    Ane: "A \<noteq> []" and sub: "set S \<subseteq> set A"
    and r: "quint_segs gu st sp n None surp_c empty_ok remconsec False =
       Inr \<lparr>qu_segs = map (\<lambda>q. filter (\<lambda>s. q = quint_of n A s) S) (map int [0..<nat n]),
            qu_counts = map length
               (map (\<lambda>q. filter (\<lambda>s. q = quint_of n A s) S) (map int [0..<nat n])),
            qu_n_consec = None\<rparr>"
    by blast
  let ?qs = "map (\<lambda>q. filter (\<lambda>s. q = quint_of n A s) S) (map int [0..<nat n])"
  have rng: "0 \<le> quint_of n A s \<and> quint_of n A s < n" if "s \<in> set S" for s
    using quint_of_range_S[OF n] sub that by blast
  have nth: "?qs ! i = filter (\<lambda>s. int i = quint_of n A s) S" if "i < nat n" for i
    using that by simp
  have disj: "\<forall>i<nat n. \<forall>j<nat n. i \<noteq> j \<longrightarrow> set (?qs ! i) \<inter> set (?qs ! j) = {}"
    by (auto simp: nth)
  have un: "(\<Union>i<nat n. set (?qs ! i)) = set S"
  proof
    show "(\<Union>i<nat n. set (?qs ! i)) \<subseteq> set S" by (auto simp: nth)
    show "set S \<subseteq> (\<Union>i<nat n. set (?qs ! i))"
    proof
      fix s assume s: "s \<in> set S"
      let ?i = "nat (quint_of n A s)"
      have "?i < nat n" and "int ?i = quint_of n A s" using rng[OF s] by auto
      then have "s \<in> set (?qs ! ?i)" using s by (simp add: nth)
      with \<open>?i < nat n\<close> show "s \<in> (\<Union>i<nat n. set (?qs ! i))" by blast
    qed
  qed
  have "\<forall>s\<in>set S. quint_of n A s \<in> set (map int [0..<nat n])"
  proof
    fix s assume s: "s \<in> set S"
    have "quint_of n A s = int (nat (quint_of n A s))" "nat (quint_of n A s) < nat n"
      using rng[OF s] by auto
    then show "quint_of n A s \<in> set (map int [0..<nat n])"
      by (metis atLeastLessThan_iff atLeast_upt imageI lessThan_iff set_map set_upt zero_le)
  qed
  then have cnt: "sum_list (map length ?qs) = length S"
    using bins_count[of "map int [0..<nat n]" S "quint_of n A"]
    by (simp add: distinct_map comp_def)
  show ?thesis
    unfolding r using disj un cnt by simp
qed














text \<open>
  Claim C2.  When the criteria-filtered query returns the segments \<open>S\<close> (it
  returns only non-empty lists), the split into four quintiles returns four
  lists that are pairwise disjoint and whose union is \<open>S\<close>; the counts add up to
  the length of \<open>S\<close>, so every segment, the maximal one included, is in exactly
  one quintile.
\<close>

theorem quint_segs_partition:
  assumes "get_segs_by_criteria st (segs_criteria sp surp_c) remconsec ''seg'' = Inr (BySeg S)"
  shows "S \<noteq> []
     \<and> (\<exists>r. quint_segs gu st sp 4 None surp_c empty_ok remconsec False = Inr r
          \<and> length (qu_segs r) = 4
          \<and> (\<forall>i<4. \<forall>j<4. i \<noteq> j \<longrightarrow> set (qu_segs r ! i) \<inter> set (qu_segs r ! j) = {})
          \<and> (\<Union>i<4. set (qu_segs r ! i)) = set S
          \<and> sum_list (qu_counts r) = length S)"
proof -
  have "S \<noteq> []" using segs_query_subset[OF assms] by blast
  moreover have "\<exists>r. quint_segs gu st sp 4 None surp_c empty_ok remconsec False = Inr r
          \<and> length (qu_segs r) = 4
          \<and> (\<forall>i<4. \<forall>j<4. i \<noteq> j \<longrightarrow> set (qu_segs r ! i) \<inter> set (qu_segs r ! j) = {})
          \<and> (\<Union>i<4. set (qu_segs r ! i)) = set S
          \<and> sum_list (qu_counts r) = length S"
    using quint_segs_partition_n[OF assms, of 4 gu empty_ok] by simp
  ultimately show ?thesis by blast
qed

theorem quint_segs_partition_witness:
  "\<exists>r. quint_segs gen_util_model
         \<lparr>stimtype = Gabors,
          stim_df = map (\<lambda>s. \<lparr>stimType = ''g'', stimPar1 = IntV 0, stimPar2 = IntV 4,
                               surp = s mod 2, stimSeg = s, gabfr = s mod 4, start2pfr = 10 * s,
                               end2pfr = 10 * s + 10, num2pfr = 10\<rparr>) [0..11],
          block_ran_seg = [[(0, 6)], [(6, 12)]]\<rparr>
         \<lparr>sp_gabfr = Any, sp_gabk = Any, sp_gab_ori = Any, sp_bri_dir = Any, sp_bri_size = Any\<rparr>
         4 None (One 1) False False False = Inr r
     \<and> length (qu_segs r) = 4
     \<and> (\<Union>i<4. set (qu_segs r ! i)) = set [1, 3, 5, 7, 9, 11]
     \<and> sum_list (qu_counts r) = 6"
proof -
  let ?st = "\<lparr>stimtype = Gabors,
          stim_df = map (\<lambda>s. \<lparr>stimType = ''g'', stimPar1 = IntV 0, stimPar2 = IntV 4,
                               surp = s mod 2, stimSeg = s, gabfr = s mod 4, start2pfr = 10 * s,
                               end2pfr = 10 * s + 10, num2pfr = 10\<rparr>) [0..11],
          block_ran_seg = [[(0, 6)], [(6, 12)]]\<rparr>"
  let ?sp = "\<lparr>sp_gabfr = Any, sp_gabk = Any, sp_gab_ori = Any, sp_bri_dir = Any,
              sp_bri_size = Any\<rparr>"
  have q2: "get_segs_by_criteria ?st (segs_criteria ?sp (One 1)) False ''seg''
      = Inr (BySeg [1, 3, 5, 7, 9, 11])"
    by code_simp
  show ?thesis
    using quint_segs_partition[OF q2, of gen_util_model False]
    by auto
qed

lemma no_match_raises:
  assumes "format_stim_criteria st c = Inr fc"
    and "\<forall>r\<in>set (stim_df st). \<not> row_ok st fc r"
  shows "get_segs_by_criteria st c remconsec by_v = Inl ValueError"
proof -
  have "filter (\<lambda>r. row_ok st fc r \<and> stimSeg r \<ge> fst j \<and> stimSeg r < snd j) (stim_df st) = []" for j
    using assms(2) by (auto simp: filter_empty_conv)
  then have "block_idxs st fc remconsec j = []" for j
    by (simp add: block_idxs_def rem_consec_def)
  then show ?thesis
    using assms(1) by (simp add: get_segs_by_criteria_def Let_def)
qed

lemma seg_query_cases:
  assumes "format_stim_criteria st c = Inl ValueError \<or> (\<exists>fc. format_stim_criteria st c = Inr fc)"
  shows "get_segs_by_criteria st c remconsec ''seg'' = Inl ValueError
   \<or> (\<exists>S. S \<noteq> [] \<and> get_segs_by_criteria st c remconsec ''seg'' = Inr (BySeg S))"
  using assms
proof
  assume "format_stim_criteria st c = Inl ValueError"
  then show ?thesis by (simp add: get_segs_by_seg)
next
  assume "\<exists>fc. format_stim_criteria st c = Inr fc"
  then obtain fc where fc: "format_stim_criteria st c = Inr fc" by blast
  show ?thesis
  proof (cases "flat_idxs st fc remconsec = []")
    case True
    with fc show ?thesis by (simp add: get_segs_by_seg)
  next
    case False
    with fc have "get_segs_by_criteria st c remconsec ''seg'' = Inr (BySeg (flat_idxs st fc remconsec))"
      by (simp add: get_segs_by_seg)
    with False show ?thesis by blast
  qed
qed

lemma bounds_query_cases:
  "get_segs_by_criteria st (bounds_criteria sp) False ''seg'' = Inl ValueError
   \<or> (\<exists>A. A \<noteq> [] \<and> get_segs_by_criteria st (bounds_criteria sp) False ''seg'' = Inr (BySeg A))"
  using format_bounds_empty[of st sp] format_bounds_nonempty[of st sp]
  by (intro seg_query_cases) blast

lemma segs_query_cases:
  "get_segs_by_criteria st (segs_criteria sp surp_c) remconsec ''seg'' = Inl ValueError
   \<or> (\<exists>S. S \<noteq> [] \<and>
        get_segs_by_criteria st (segs_criteria sp surp_c) remconsec ''seg'' = Inr (BySeg S))"
  using format_segs_empty[of st sp surp_c] format_segs_nonempty[of st sp surp_c]
  by (intro seg_query_cases) blast

lemma quint_segs_raises:
  assumes e: "get_segs_by_criteria st (segs_criteria sp surp_c) remconsec ''seg'' = Inl ValueError"
    and I: "(case qu_idx_arg of None \<Rightarrow> Inr (map int [0..<nat n_quints])
               | Some l \<Rightarrow> pos_idx gu l n_quints) = Inr qu_idx"
  shows "quint_segs gu st sp n_quints qu_idx_arg surp_c False remconsec by_surp_len = Inl ValueError"
  using bounds_query_cases[of st sp]
proof
  assume "get_segs_by_criteria st (bounds_criteria sp) False ''seg'' = Inl ValueError"
  then show ?thesis
    unfolding quint_segs_def I by (simp add: ebind_def query_segs_def)
next
  assume "\<exists>A. A \<noteq> [] \<and> get_segs_by_criteria st (bounds_criteria sp) False ''seg'' = Inr (BySeg A)"
  then obtain A where "A \<noteq> []"
    "get_segs_by_criteria st (bounds_criteria sp) False ''seg'' = Inr (BySeg A)" by blast
  then show ?thesis
    unfolding quint_segs_def I by (simp add: ebind_def query_segs_def e split: prod.splits)
qed

lemma bounds_query_empty_ok:
  "\<exists>A. query_segs True (get_segs_by_criteria st (bounds_criteria sp) False ''seg'') = Inr A"
  using bounds_query_cases[of st sp] by (auto simp: query_segs_def)

lemma quint_segs_empty_ok:
  assumes e: "get_segs_by_criteria st (segs_criteria sp surp_c) remconsec ''seg'' = Inl ValueError"
    and I: "(case qu_idx_arg of None \<Rightarrow> Inr (map int [0..<nat n_quints])
               | Some l \<Rightarrow> pos_idx gu l n_quints) = Inr qu_idx"
    and nz: "n_quints \<noteq> 0"
  shows "quint_segs gu st sp n_quints qu_idx_arg surp_c True remconsec False
     = Inr \<lparr>qu_segs = map (\<lambda>q. []) qu_idx, qu_counts = map (\<lambda>q. 0) qu_idx,
            qu_n_consec = None\<rparr>"
proof -
  obtain A where A: "query_segs True (get_segs_by_criteria st (bounds_criteria sp) False ''seg'')
      = Inr A"
    using bounds_query_empty_ok by blast
  have S: "query_segs True (get_segs_by_criteria st (segs_criteria sp surp_c) remconsec ''seg'')
      = Inr []"
    by (simp add: e query_segs_def)
  show ?thesis
    using quint_segs_closed[OF I A S] nz by (simp add: comp_def)
qed

text \<open>
  Claim C8.  A query whose criteria no row of the table fits raises
  \<open>ValueError\<close>.  When the criteria-filtered query of \<open>quint_segs\<close> raises it,
  \<open>quint_segs\<close> raises it too by default; with \<open>empty_ok = True\<close> (and at least
  one quintile to split into) it returns an empty list and a zero count for
  each retained quintile.
\<close>

theorem empty_query_raises_unless_empty_ok:
  "(format_stim_criteria st c = Inr fc \<longrightarrow> (\<forall>r\<in>set (stim_df st). \<not> row_ok st fc r) \<longrightarrow>
      get_segs_by_criteria st c remconsec by_v = Inl ValueError)
   \<and> (get_segs_by_criteria st (segs_criteria sp surp_c) remconsec ''seg'' = Inl ValueError \<longrightarrow>
      (case qu_idx_arg of None \<Rightarrow> Inr (map int [0..<nat n_quints])
        | Some l \<Rightarrow> pos_idx gu l n_quints) = Inr qu_idx \<longrightarrow>
        quint_segs gu st sp n_quints qu_idx_arg surp_c False remconsec by_surp_len
          = Inl ValueError
      \<and> (n_quints \<noteq> 0 \<longrightarrow>
          quint_segs gu st sp n_quints qu_idx_arg surp_c True remconsec False
            = Inr \<lparr>qu_segs = map (\<lambda>q. []) qu_idx, qu_counts = map (\<lambda>q. 0) qu_idx,
                   qu_n_consec = None\<rparr>))"
proof (intro conjI impI)
  assume "format_stim_criteria st c = Inr fc" "\<forall>r\<in>set (stim_df st). \<not> row_ok st fc r"
  then show "get_segs_by_criteria st c remconsec by_v = Inl ValueError"
    by (rule no_match_raises)
next
  assume "get_segs_by_criteria st (segs_criteria sp surp_c) remconsec ''seg'' = Inl ValueError"
    "(case qu_idx_arg of None \<Rightarrow> Inr (map int [0..<nat n_quints])
        | Some l \<Rightarrow> pos_idx gu l n_quints) = Inr qu_idx"
  then show "quint_segs gu st sp n_quints qu_idx_arg surp_c False remconsec by_surp_len
          = Inl ValueError"
    by (rule quint_segs_raises)
next
  assume "get_segs_by_criteria st (segs_criteria sp surp_c) remconsec ''seg'' = Inl ValueError"
    "(case qu_idx_arg of None \<Rightarrow> Inr (map int [0..<nat n_quints])
        | Some l \<Rightarrow> pos_idx gu l n_quints) = Inr qu_idx"
    "n_quints \<noteq> 0"
  then show "quint_segs gu st sp n_quints qu_idx_arg surp_c True remconsec False
            = Inr \<lparr>qu_segs = map (\<lambda>q. []) qu_idx, qu_counts = map (\<lambda>q. 0) qu_idx,
                   qu_n_consec = None\<rparr>"
    by (rule quint_segs_empty_ok)
qed

theorem empty_query_raises_unless_empty_ok_witness:
  "get_segs_by_criteria
      \<lparr>stimtype = Gabors,
       stim_df = map (\<lambda>s. \<lparr>stimType = ''g'', stimPar1 = IntV 0, stimPar2 = IntV 4,
                            surp = s mod 2, stimSeg = s, gabfr = s mod 4, start2pfr = 10 * s,
                            end2pfr = 10 * s + 10, num2pfr = 10\<rparr>) [0..11],
       block_ran_seg = [[(0, 6)], [(6, 12)]]\<rparr>
      (default_criteria\<lparr>q_surp := One 2\<rparr>) False ''block'' = Inl ValueError
   \<and> quint_segs gen_util_model
      \<lparr>stimtype = Gabors,
       stim_df = map (\<lambda>s. \<lparr>stimType = ''g'', stimPar1 = IntV 0, stimPar2 = IntV 4,
                            surp = s mod 2, stimSeg = s, gabfr = s mod 4, start2pfr = 10 * s,
                            end2pfr = 10 * s + 10, num2pfr = 10\<rparr>) [0..11],
       block_ran_seg = [[(0, 6)], [(6, 12)]]\<rparr>
      \<lparr>sp_gabfr = Any, sp_gabk = Any, sp_gab_ori = Any, sp_bri_dir = Any, sp_bri_size = Any\<rparr>
      4 None (One 2) False False False = Inl ValueError
   \<and> quint_segs gen_util_model
      \<lparr>stimtype = Gabors,
       stim_df = map (\<lambda>s. \<lparr>stimType = ''g'', stimPar1 = IntV 0, stimPar2 = IntV 4,
                            surp = s mod 2, stimSeg = s, gabfr = s mod 4, start2pfr = 10 * s,
                            end2pfr = 10 * s + 10, num2pfr = 10\<rparr>) [0..11],
       block_ran_seg = [[(0, 6)], [(6, 12)]]\<rparr>
      \<lparr>sp_gabfr = Any, sp_gabk = Any, sp_gab_ori = Any, sp_bri_dir = Any, sp_bri_size = Any\<rparr>
      4 None (One 2) True False False
     = Inr \<lparr>qu_segs = [[], [], [], []], qu_counts = [0, 0, 0, 0], qu_n_consec = None\<rparr>"
proof -
  let ?st = "\<lparr>stimtype = Gabors,
       stim_df = map (\<lambda>s. \<lparr>stimType = ''g'', stimPar1 = IntV 0, stimPar2 = IntV 4,
                            surp = s mod 2, stimSeg = s, gabfr = s mod 4, start2pfr = 10 * s,
                            end2pfr = 10 * s + 10, num2pfr = 10\<rparr>) [0..11],
       block_ran_seg = [[(0, 6)], [(6, 12)]]\<rparr>"
  let ?sp = "\<lparr>sp_gabfr = Any, sp_gabk = Any, sp_gab_ori = Any, sp_bri_dir = Any,
              sp_bri_size = Any\<rparr>"
  let ?c = "default_criteria\<lparr>q_surp := One 2\<rparr>"
  let ?fc = "projr (format_stim_criteria ?st ?c)"
  have f: "format_stim_criteria ?st ?c = Inr ?fc" by code_simp
  have nr: "\<forall>r\<in>set (stim_df ?st). \<not> row_ok ?st ?fc r" by code_simp
  have e: "get_segs_by_criteria ?st (segs_criteria ?sp (One 2)) False ''seg'' = Inl ValueError"
    by code_simp
  have I: "(case None of None \<Rightarrow> Inr (map int [0..<nat 4])
            | Some l \<Rightarrow> pos_idx gen_util_model l 4) = Inr [0, 1, 2, 3]"
    by code_simp
  have nz: "(4::int) \<noteq> 0" by simp
  show ?thesis
    using empty_query_raises_unless_empty_ok[where st = ?st and c = ?c and fc = ?fc
        and remconsec = False and by_v = "''block''" and sp = ?sp and surp_c = "One 2"
        and qu_idx_arg = None and n_quints = 4 and gu = gen_util_model
        and qu_idx = "[0, 1, 2, 3]" and by_surp_len = False] f nr e I nz
    by simp
qed

lemma quint_segs_lengths:
  assumes "quint_segs gu st sp n_quints qu_idx_arg surp_c empty_ok remconsec by_surp_len = Inr r"
  shows "\<exists>qu_idx. (case qu_idx_arg of None \<Rightarrow> Inr (map int [0..<nat n_quints])
                    | Some l \<Rightarrow> pos_idx gu l n_quints) = Inr qu_idx
          \<and> length (qu_segs r) = length qu_idx \<and> length (qu_counts r) = length qu_idx
          \<and> qu_counts r = map length (qu_segs r)"
proof (cases "case qu_idx_arg of None \<Rightarrow> Inr (map int [0..<nat n_quints])
                    | Some l \<Rightarrow> pos_idx gu l n_quints")
  case (Inl e)
  with assms show ?thesis by (simp add: quint_segs_def ebind_def)
next
  case (Inr qu_idx)
  with assms have "length (qu_segs r) = length qu_idx \<and> length (qu_counts r) = length qu_idx
      \<and> qu_counts r = map length (qu_segs r)"
    unfolding quint_segs_def Inr
    by (auto simp: ebind_def Let_def split: sum.splits prod.splits if_splits)
  with Inr show ?thesis by blast
qed

lemma segs_query_empty_ok:
  "\<exists>S. query_segs True (get_segs_by_criteria st (segs_criteria sp surp_c) remconsec ''seg'') = Inr S"
  using segs_query_cases[of st sp surp_c remconsec] by (auto simp: query_segs_def)

lemma quint_segs_total:
  assumes "n_quints \<noteq> 0"
  shows "\<exists>r. quint_segs gu st sp n_quints None surp_c True remconsec False = Inr r
         \<and> length (qu_segs r) = nat n_quints \<and> length (qu_counts r) = nat n_quints"
proof -
  obtain A where A: "query_segs True (get_segs_by_criteria st (bounds_criteria sp) False ''seg'')
      = Inr A"
    using bounds_query_empty_ok by blast
  obtain S where S: "query_segs True
      (get_segs_by_criteria st (segs_criteria sp surp_c) remconsec ''seg'') = Inr S"
    using segs_query_empty_ok by blast
  show ?thesis
    using quint_segs_closed[where qu_idx_arg = None and qu_idx = "map int [0..<nat n_quints]",
        OF _ A S] assms
    by simp
qed

text \<open>
  Claim C10.  Whatever \<open>quint_segs\<close> returns has one entry per retained
  quintile in \<open>qu_segs\<close> and in \<open>qu_counts\<close>, \<open>n_quints\<close> entries for
  \<open>qu_idx = 'all'\<close>, and each count is the length of its list.  With
  \<open>empty_ok = True\<close> and \<open>n_quints \<noteq> 0\<close> the call with \<open>qu_idx = 'all'\<close> always
  returns; when no segment fits the criteria every list is empty and every
  count is 0.
\<close>

theorem quint_segs_one_entry_per_quintile:
  "(quint_segs gu st sp n_quints qu_idx_arg surp_c empty_ok remconsec by_surp_len = Inr r \<longrightarrow>
      (\<exists>qu_idx. (case qu_idx_arg of None \<Rightarrow> Inr (map int [0..<nat n_quints])
                  | Some l \<Rightarrow> pos_idx gu l n_quints) = Inr qu_idx
          \<and> length (qu_segs r) = length qu_idx \<and> length (qu_counts r) = length qu_idx)
      \<and> (qu_idx_arg = None \<longrightarrow>
            length (qu_segs r) = nat n_quints \<and> length (qu_counts r) = nat n_quints)
      \<and> qu_counts r = map length (qu_segs r))
   \<and> (n_quints \<noteq> 0 \<longrightarrow>
      (\<exists>r'. quint_segs gu st sp n_quints None surp_c True remconsec False = Inr r'
         \<and> length (qu_segs r') = nat n_quints \<and> length (qu_counts r') = nat n_quints
         \<and> (get_segs_by_criteria st (segs_criteria sp surp_c) remconsec ''seg'' = Inl ValueError
              \<longrightarrow> qu_segs r' = replicate (nat n_quints) []
                \<and> qu_counts r' = replicate (nat n_quints) 0)))"
proof (intro conjI impI)
  assume r: "quint_segs gu st sp n_quints qu_idx_arg surp_c empty_ok remconsec by_surp_len = Inr r"
  from quint_segs_lengths[OF r]
  show "\<exists>qu_idx. (case qu_idx_arg of None \<Rightarrow> Inr (map int [0..<nat n_quints])
                  | Some l \<Rightarrow> pos_idx gu l n_quints) = Inr qu_idx
          \<and> length (qu_segs r) = length qu_idx \<and> length (qu_counts r) = length qu_idx"
    by blast
  from quint_segs_lengths[OF r] show "qu_counts r = map length (qu_segs r)" by blast
  {
    assume "qu_idx_arg = None"
    with quint_segs_lengths[OF r]
    show "length (qu_segs r) = nat n_quints" "length (qu_counts r) = nat n_quints" by auto
  }
next
  assume nz: "n_quints \<noteq> 0"
  from quint_segs_total[OF nz, of gu st sp surp_c remconsec] obtain r' where
    r': "quint_segs gu st sp n_quints None surp_c True remconsec False = Inr r'"
      "length (qu_segs r') = nat n_quints" "length (qu_counts r') = nat n_quints"
    by blast
  have "get_segs_by_criteria st (segs_criteria sp surp_c) remconsec ''seg'' = Inl ValueError
      \<longrightarrow> qu_segs r' = replicate (nat n_quints) [] \<and> qu_counts r' = replicate (nat n_quints) 0"
  proof
    assume e: "get_segs_by_criteria st (segs_criteria sp surp_c) remconsec ''seg'' = Inl ValueError"
    have "quint_segs gu st sp n_quints None surp_c True remconsec False
       = Inr \<lparr>qu_segs = map (\<lambda>q. []) (map int [0..<nat n_quints]),
              qu_counts = map (\<lambda>q. 0) (map int [0..<nat n_quints]), qu_n_consec = None\<rparr>"
      by (rule quint_segs_empty_ok[OF e _ nz]) simp
    with r'(1) show "qu_segs r' = replicate (nat n_quints) []
        \<and> qu_counts r' = replicate (nat n_quints) 0"
      by (auto simp: map_replicate_const)
  qed
  with r' show "\<exists>r'. quint_segs gu st sp n_quints None surp_c True remconsec False = Inr r'
         \<and> length (qu_segs r') = nat n_quints \<and> length (qu_counts r') = nat n_quints
         \<and> (get_segs_by_criteria st (segs_criteria sp surp_c) remconsec ''seg'' = Inl ValueError
              \<longrightarrow> qu_segs r' = replicate (nat n_quints) []
                \<and> qu_counts r' = replicate (nat n_quints) 0)"
    by blast
qed

theorem quint_segs_one_entry_per_quintile_witness:
  "(\<exists>r'. quint_segs gen_util_model
      \<lparr>stimtype = Gabors,
       stim_df = map (\<lambda>s. \<lparr>stimType = ''g'', stimPar1 = IntV 0, stimPar2 = IntV 4,
                            surp = s mod 2, stimSeg = s, gabfr = s mod 4, start2pfr = 10 * s,
                            end2pfr = 10 * s + 10, num2pfr = 10\<rparr>) [0..11],
       block_ran_seg = [[(0, 6)], [(6, 12)]]\<rparr>
      \<lparr>sp_gabfr = Any, sp_gabk = Any, sp_gab_ori = Any, sp_bri_dir = Any, sp_bri_size = Any\<rparr>
      4 None (One 2) True False False = Inr r'
     \<and> length (qu_segs r') = 4 \<and> length (qu_counts r') = 4
     \<and> qu_segs r' = replicate 4 [] \<and> qu_counts r' = replicate 4 0)
   \<and> length (qu_segs \<lparr>qu_segs = [[1], [11]], qu_counts = [1, 1],
                       qu_n_consec = Some [[1], [1]]\<rparr>) = length [0, 4 :: int]"
proof -
  let ?st = "\<lparr>stimtype = Gabors,
       stim_df = map (\<lambda>s. \<lparr>stimType = ''g'', stimPar1 = IntV 0, stimPar2 = IntV 4,
                            surp = s mod 2, stimSeg = s, gabfr = s mod 4, start2pfr = 10 * s,
                            end2pfr = 10 * s + 10, num2pfr = 10\<rparr>) [0..11],
       block_ran_seg = [[(0, 6)], [(6, 12)]]\<rparr>"
  let ?sp = "\<lparr>sp_gabfr = Any, sp_gabk = Any, sp_gab_ori = Any, sp_bri_dir = Any,
              sp_bri_size = Any\<rparr>"
  let ?r = "\<lparr>qu_segs = [[1], [11]], qu_counts = [1, 1], qu_n_consec = Some [[1], [1]]\<rparr>"
  have e: "get_segs_by_criteria ?st (segs_criteria ?sp (One 2)) False ''seg'' = Inl ValueError"
    by code_simp
  have r: "quint_segs gen_util_model ?st ?sp 5 (Some [0, - 1]) (One 1) False False True = Inr ?r"
    by code_simp
  have nz: "(4::int) \<noteq> 0" by simp
  from quint_segs_one_entry_per_quintile[of gen_util_model ?st ?sp 4 None "One 2" True False False
      undefined, THEN conjunct2] nz e
  have a: "\<exists>r'. quint_segs gen_util_model ?st ?sp 4 None (One 2) True False False = Inr r'
     \<and> length (qu_segs r') = 4 \<and> length (qu_counts r') = 4
     \<and> qu_segs r' = replicate 4 [] \<and> qu_counts r' = replicate 4 0"
    by auto
  from quint_segs_one_entry_per_quintile[of gen_util_model ?st ?sp 5 "Some [0, - 1]" "One 1" False
      False True ?r, THEN conjunct1] r
  have b: "length (qu_segs ?r) = length [0, 4 :: int]"
    by (simp add: gen_util_model_def pos_idx_model_def)
  from a b show ?thesis by blast
qed

section \<open>Properties of the sampling of quintile segments\<close>

lemma samp_runs_none:
  assumes "\<forall>j<length ns. take (ns ! j) (drop (i + sum_list (take j ns)) flat) \<noteq> []
      \<and> list_max (take (ns ! j) (drop (i + sum_list (take j ns)) flat))
          - list_min (take (ns ! j) (drop (i + sum_list (take j ns)) flat)) \<le> seg_pre + seg_post"
  shows "samp_runs rng flat seg_pre seg_post ns i k = Inr []"
  using assms
proof (induction ns arbitrary: i)
  case Nil
  show ?case by simp
next
  case (Cons n ns)
  from Cons.prems[rule_format, of 0]
  have ne: "take n (drop i flat) \<noteq> []"
    and w: "list_max (take n (drop i flat)) - list_min (take n (drop i flat)) \<le> seg_pre + seg_post"
    by simp_all
  have "\<forall>j<length ns. take (ns ! j) (drop (i + n + sum_list (take j ns)) flat) \<noteq> []
      \<and> list_max (take (ns ! j) (drop (i + n + sum_list (take j ns)) flat))
          - list_min (take (ns ! j) (drop (i + n + sum_list (take j ns)) flat)) \<le> seg_pre + seg_post"
  proof (intro allI impI)
    fix j assume "j < length ns"
    then show "take (ns ! j) (drop (i + n + sum_list (take j ns)) flat) \<noteq> []
      \<and> list_max (take (ns ! j) (drop (i + n + sum_list (take j ns)) flat))
          - list_min (take (ns ! j) (drop (i + n + sum_list (take j ns)) flat)) \<le> seg_pre + seg_post"
      using Cons.prems[rule_format, of "Suc j"] by (simp add: add.assoc)
  qed
  from Cons.IH[OF this] have rest: "samp_runs rng flat seg_pre seg_post ns (i + n) k = Inr []" .
  have "\<not> list_min (take n (drop i flat)) + seg_pre < list_max (take n (drop i flat)) - seg_post"
    using w by linarith
  with ne rest show ?case by (simp add: Let_def)
qed

lemma emap_quint_samps_Nil:
  "[] \<notin> set qs \<Longrightarrow> emap (quint_samps []) qs = Inr (map (\<lambda>sub. []) qs)"
  by (induction qs) (auto simp: quint_samps_def)

text \<open>
  Claim C9 (as amended).  \<open>samp_quint_segs\<close> raises \<open>ValueError\<close> when there are
  fewer than two segments or when the smallest difference between consecutive
  segments is neither 1 nor 4.  Otherwise a series of consecutive segments that
  the margins leave no room in (\<open>max - min \<le> seg_pre + seg_post\<close>) is skipped
  without an error: when that holds for every series and no quintile is empty,
  the function returns an empty list and a zero count for every quintile.
\<close>

theorem samp_quint_segs_skips_runs:
  "((np_diff_int (concat qs) = []
      \<or> (list_min (np_diff_int (concat qs)) \<noteq> 1 \<and> list_min (np_diff_int (concat qs)) \<noteq> 4))
     \<longrightarrow> samp_quint_segs gu rng qs seg_pre seg_post = Inl ValueError)
   \<and> (np_diff_int (concat qs) \<noteq> [] \<longrightarrow>
      (list_min (np_diff_int (concat qs)) = 1 \<or> list_min (np_diff_int (concat qs)) = 4) \<longrightarrow>
      consec gu (concat qs) (Some True) = Inr (all_segs, n_consec) \<longrightarrow>
      length all_segs = length n_consec \<longrightarrow>
      (\<forall>j<length n_consec.
          take (n_consec ! j) (drop (sum_list (take j n_consec)) (concat qs)) \<noteq> []
        \<and> list_max (take (n_consec ! j) (drop (sum_list (take j n_consec)) (concat qs)))
            - list_min (take (n_consec ! j) (drop (sum_list (take j n_consec)) (concat qs)))
           \<le> seg_pre + seg_post) \<longrightarrow>
      [] \<notin> set qs \<longrightarrow>
      samp_quint_segs gu rng qs seg_pre seg_post = Inr (map (\<lambda>sub. []) qs, map (\<lambda>sub. 0) qs))"
proof (intro conjI impI)
  assume "np_diff_int (concat qs) = []
      \<or> (list_min (np_diff_int (concat qs)) \<noteq> 1 \<and> list_min (np_diff_int (concat qs)) \<noteq> 4)"
  then show "samp_quint_segs gu rng qs seg_pre seg_post = Inl ValueError"
    by (auto simp: samp_quint_segs_def Let_def)
next
  assume d: "np_diff_int (concat qs) \<noteq> []"
    "list_min (np_diff_int (concat qs)) = 1 \<or> list_min (np_diff_int (concat qs)) = 4"
    and c: "consec gu (concat qs) (Some True) = Inr (all_segs, n_consec)"
    and l: "length all_segs = length n_consec"
    and m: "\<forall>j<length n_consec.
          take (n_consec ! j) (drop (sum_list (take j n_consec)) (concat qs)) \<noteq> []
        \<and> list_max (take (n_consec ! j) (drop (sum_list (take j n_consec)) (concat qs)))
            - list_min (take (n_consec ! j) (drop (sum_list (take j n_consec)) (concat qs)))
           \<le> seg_pre + seg_post"
    and ne: "[] \<notin> set qs"
  have s: "samp_runs rng (concat qs) seg_pre seg_post n_consec 0 0 = Inr []"
    by (rule samp_runs_none) (use m in simp)
  show "samp_quint_segs gu rng qs seg_pre seg_post = Inr (map (\<lambda>sub. []) qs, map (\<lambda>sub. 0) qs)"
    using d unfolding samp_quint_segs_def Let_def c
    by (auto simp: ebind_def l s emap_quint_samps_Nil[OF ne] comp_def)
qed

theorem samp_quint_segs_skips_runs_witness:
  "samp_quint_segs gen_util_model (\<lambda>k. 0) [[1, 2, 3], [7, 8, 9, 10]] 2 3 = Inr ([[], []], [0, 0])
   \<and> samp_quint_segs gen_util_model (\<lambda>k. 0) [[1, 3, 6]] 0 0 = Inl ValueError"
proof -
  let ?qs = "[[1, 2, 3], [7, 8, 9, 10 :: int]]"
  have d: "np_diff_int (concat ?qs) \<noteq> []" by code_simp
  have m: "list_min (np_diff_int (concat ?qs)) = 1 \<or> list_min (np_diff_int (concat ?qs)) = 4"
    by code_simp
  have c: "consec gen_util_model (concat ?qs) (Some True) = Inr ([1, 7], [3, 4])" by code_simp
  have l: "length [1, 7 :: int] = length [3, 4 :: nat]" by simp
  have w: "\<forall>j<length [3, 4 :: nat].
          take ([3, 4] ! j) (drop (sum_list (take j [3, 4])) (concat ?qs)) \<noteq> []
        \<and> list_max (take ([3, 4] ! j) (drop (sum_list (take j [3, 4])) (concat ?qs)))
            - list_min (take ([3, 4] ! j) (drop (sum_list (take j [3, 4])) (concat ?qs)))
           \<le> 2 + 3"
    by (simp add: less_Suc_eq list_max_def list_min_def)
  have ne: "[] \<notin> set ?qs" by simp
  have d2: "np_diff_int (concat [[1, 3, 6 :: int]]) = []
      \<or> (list_min (np_diff_int (concat [[1, 3, 6]])) \<noteq> 1
          \<and> list_min (np_diff_int (concat [[1, 3, 6]])) \<noteq> 4)"
    by code_simp
  from samp_quint_segs_skips_runs[of ?qs gen_util_model "\<lambda>k. 0" 2 3 "[1, 7]" "[3, 4]",
      THEN conjunct2, THEN mp, OF d, THEN mp, OF m, THEN mp, OF c, THEN mp, OF l, THEN mp, OF w,
      THEN mp, OF ne]
  have a: "samp_quint_segs gen_util_model (\<lambda>k. 0) ?qs 2 3 = Inr ([[], []], [0, 0])"
    by simp
  from samp_quint_segs_skips_runs[of "[[1, 3, 6]]" gen_util_model "\<lambda>k. 0" 0 0,
      THEN conjunct1] d2
  have b: "samp_quint_segs gen_util_model (\<lambda>k. 0) [[1, 3, 6]] 0 0 = Inl ValueError"
    by blast
  from a b show ?thesis by blast
qed

text \<open>
  Claim C9 as stated fails: for one quintile with the segments 1, 2, 3 and
  \<open>seg_pre = 5\<close> no series survives the margin, and the function returns an
  empty list with count 0 instead of raising.  It has no argument to opt into a
  placeholder.
\<close>

theorem samp_quint_segs_no_survivor_counterexample:
  "consec gen_util_model (concat [[1, 2, 3]]) (Some True) = Inr ([1], [3])
   \<and> \<not> (list_min [1, 2, 3] + 5 < list_max [1, 2, 3] - 0)
   \<and> samp_quint_segs gen_util_model (\<lambda>k. 0) [[1, 2, 3]] 5 0 = Inr ([[]], [0])"
  by code_simp

end
